theory Spec2Isabelle
  imports Complex_Main "HOL-Library.AList" "HOL-Library.Log_Nat" "HOL-Library.Multiset"
    "HOL-Library.Sublist"
begin

section \<open>Values of the Python program\<close>

text \<open>
  A Python \<open>str\<close> is a sequence of Unicode code points. The gacha item labels are Thai
  text behind an emoji, so a string that the program only stores and compares is a list of
  code points. User identifiers and file names are ASCII and are kept as \<open>string\<close>.
\<close>

type_synonym ustr = "nat list"

text \<open>The exceptions that the modelled functions can raise or catch.\<close>

datatype error =
  ValueError | TypeError | UnboundLocalError | OSError | PermissionError | JSONDecodeError

text \<open>\<open>str(n)\<close> for an integer: the decimal digits, with a minus sign when negative.\<close>

fun digit_chars :: "nat \<Rightarrow> string" where
  "digit_chars n =
     (if n < 10 then [char_of (48 + n)]
      else digit_chars (n div 10) @ [char_of (48 + n mod 10)])"

declare digit_chars.simps [simp del]

definition str :: "int \<Rightarrow> string" where
  "str i = (if i < 0 then CHR ''-'' # digit_chars (nat (- i)) else digit_chars (nat i))"

subsection \<open>Floats\<close>

text \<open>
  A Python \<open>float\<close> is an IEEE 754 double, represented by the real number it denotes. An
  arithmetic operation on floats gives the double nearest to the exact result, a tie going
  to the even significand: \<open>round_double\<close>. A double has 53 significant bits and a least
  binary digit of weight \<open>2 powi (- 1074)\<close> or more; \<open>exponent x\<close> is the largest \<open>e\<close> with
  \<open>2 powi e \<le> \<bar>x\<bar>\<close>. Infinities are not represented: the floats of the program are clock
  readings, their differences and the seconds of a \<open>timedelta\<close>.
\<close>

definition rne :: "real \<Rightarrow> int" where
  "rne y = (if y - of_int \<lfloor>y\<rfloor> < 1 / 2 then \<lfloor>y\<rfloor>
            else if 1 / 2 < y - of_int \<lfloor>y\<rfloor> then \<lfloor>y\<rfloor> + 1
            else if even \<lfloor>y\<rfloor> then \<lfloor>y\<rfloor> else \<lfloor>y\<rfloor> + 1)"

definition exponent :: "real \<Rightarrow> int" where
  "exponent x = (if 1 \<le> \<bar>x\<bar> then bitlen \<lfloor>\<bar>x\<bar>\<rfloor> - 1 else - bitlen (\<lceil>1 / \<bar>x\<bar>\<rceil> - 1))"

definition round_double :: "real \<Rightarrow> real" where
  "round_double x =
     (if x = 0 then 0
      else (let e = max (exponent x - 52) (- 1074)
            in of_int (rne (x * 2 powi (- e))) * 2 powi e))"

text \<open>\<open>a - b\<close> on floats.\<close>

definition fsub :: "real \<Rightarrow> real \<Rightarrow> real" where
  "fsub a b = round_double (a - b)"

text \<open>\<open>int(x)\<close> for a float \<open>x\<close>: truncation towards zero.\<close>

definition int_of_float :: "real \<Rightarrow> int" where
  "int_of_float x = (if 0 \<le> x then \<lfloor>x\<rfloor> else \<lceil>x\<rceil>)"

subsection \<open>Stored timestamps\<close>

text \<open>
  \<open>last_daily\<close>, \<open>last_online\<close> and \<open>join_date\<close> hold the text written by
  \<open>datetime.isoformat()\<close>, or whatever text the data file had there. The program only
  ever passes such a text to \<open>datetime.fromisoformat\<close>, so the text is represented by
  what that call makes of it:
  \<^item> \<open>Aware t\<close>: a timestamp with a UTC offset, denoting the instant \<open>t\<close>
    (microseconds since the epoch, the resolution of \<open>datetime\<close>);
  \<^item> \<open>Naive t\<close>: a well-formed timestamp without an offset; subtracting it from the
    offset-aware \<open>datetime.now(timezone.utc)\<close> raises \<open>TypeError\<close>;
  \<^item> \<open>Malformed s\<close>: any other text \<open>s\<close>; \<open>fromisoformat\<close> raises \<open>ValueError\<close>.
  \<open>datetime.now(timezone.utc).isoformat()\<close> at the instant \<open>now\<close> is \<open>Aware now\<close>.
\<close>

datatype stamp = Aware int | Naive int | Malformed ustr

text \<open>Truth value of a stored field: \<open>None\<close> and the empty string are false.\<close>

fun truthy :: "stamp option \<Rightarrow> bool" where
  "truthy None = False"
| "truthy (Some (Malformed s)) = (s \<noteq> [])"
| "truthy (Some (Aware t)) = True"
| "truthy (Some (Naive t)) = True"

text \<open>
  \<open>datetime.now(timezone.utc) - datetime.fromisoformat(s)\<close>, a \<open>timedelta\<close>, in
  microseconds.
\<close>

fun elapsed_since :: "int \<Rightarrow> stamp \<Rightarrow> error + int" where
  "elapsed_since now (Aware t) = Inr (now - t)"
| "elapsed_since now (Naive t) = Inl TypeError"
| "elapsed_since now (Malformed s) = Inl ValueError"

text \<open>
  \<open>int(delta.total_seconds())\<close>: \<open>total_seconds()\<close> is the true division of the
  microseconds of the \<open>timedelta\<close> by \<open>10**6\<close>, whose result is the float nearest to the
  quotient; \<open>int\<close> truncates it towards zero.
\<close>

definition int_total_seconds :: "int \<Rightarrow> int" where
  "int_total_seconds d = int_of_float (round_double (of_int d / 1000000))"

text \<open>\<open>timedelta(days=1)\<close> in microseconds.\<close>

definition one_day :: int where
  "one_day = 86400 * 1000000"

section \<open>Rate limiting\<close>

text \<open>
  \<open>user_last_command = defaultdict(float)\<close>: a dictionary from user id to the value of
  \<open>time.time()\<close> at the last admitted command. Reading a missing key gives \<open>0.0\<close> and
  stores it. \<open>time.time()\<close> is a float of seconds, and the elapsed time is the float
  difference \<open>fsub\<close>; the comparison of a float with the integer cooldown is exact.
\<close>

type_synonym limiter = "int \<rightharpoonup> real"

definition last_command :: "limiter \<Rightarrow> int \<Rightarrow> real" where
  "last_command m user_id = (case m user_id of None \<Rightarrow> 0 | Some t \<Rightarrow> t)"

definition is_rate_limited :: "real \<Rightarrow> int \<Rightarrow> real \<Rightarrow> limiter \<Rightarrow> bool \<times> limiter" where
  "is_rate_limited now user_id cooldown m =
     (let m1 = m(user_id \<mapsto> last_command m user_id)
      in if fsub now (last_command m1 user_id) < cooldown then (True, m1)
         else (False, m1(user_id \<mapsto> now)))"

section \<open>User records and the store\<close>

text \<open>
  One record per user, with the fields that \<open>ensure_user_data\<close> creates. The field
  \<open>exp\<close> of the source is \<open>exp'\<close> here. Every record has every field, so
  \<open>user.get(key, default)\<close> reads the field and the branch of \<open>gacha\<close> for a
  record without \<open>inventory\<close> is never taken. The numbers are Python integers.
\<close>

record user =
  money :: int
  level :: int
  exp' :: int
  inventory :: "ustr list"
  last_daily :: "stamp option"
  item :: ustr
  total_online :: int
  last_online :: "stamp option"
  join_date :: stamp
  command_usage :: int

text \<open>
  \<open>user_data\<close> is a Python dictionary: keys are unique and keep their insertion order.
  It is an association list; \<open>AList.update\<close> replaces the value of a present key in
  place and appends a new key at the end, as assignment to a dictionary entry does.
\<close>

type_synonym store = "(string \<times> user) list"

definition new_user :: "int \<Rightarrow> user" where
  "new_user now =
     \<lparr>money = 0, level = 1, exp' = 0, inventory = [], last_daily = None, item = [],
      total_online = 0, last_online = None, join_date = Aware now, command_usage = 0\<rparr>"

text \<open>
  \<open>ensure_user_data\<close> returns the record of \<open>uid\<close>, creating it first when it is
  missing. The Python returns a reference into \<open>user_data\<close>; the callers below write
  the changed record back with \<open>AList.update\<close>.
\<close>

definition ensure_user_data :: "int \<Rightarrow> string \<Rightarrow> store \<Rightarrow> store \<times> user" where
  "ensure_user_data now uid st =
     (case map_of st uid of
        Some u \<Rightarrow> (st, u)
      | None \<Rightarrow> (AList.update uid (new_user now) st, new_user now))"

section \<open>Replies\<close>

text \<open>
  What a command sends back, without the layout of the embed. \<open>save_data()\<close>, which
  the commands call before replying, writes \<open>user_data\<close> to disk, catches every
  exception and leaves \<open>user_data\<close> as it is; it is not part of the command models.
  Neither are the \<open>commands.cooldown\<close> decorators, which act before the function is
  entered. A function reads the clock once: \<open>now\<close> stands for every
  \<open>datetime.now(timezone.utc)\<close> of one call.
\<close>

datatype reply =
    Wait
  | AlreadyClaimed int int
  | Claimed int "int option" int int
  | InsufficientFunds int int
  | Drew ustr int int nat
  | Profile ustr int int int int int "ustr list" nat
  | Board string "(nat \<times> string \<times> int) list"

section \<open>Daily reward\<close>

text \<open>
  The check at the head of \<open>daily_reward\<close>: \<open>Inr (Some (hours, minutes))\<close> when the
  reward was claimed less than a day ago, \<open>Inr None\<close> when the claim goes on. A
  \<open>ValueError\<close> of \<open>fromisoformat\<close> is caught and logged; the \<open>TypeError\<close> of the
  subtraction is not.
\<close>

definition claimed_today :: "int \<Rightarrow> stamp option \<Rightarrow> error + (int \<times> int) option" where
  "claimed_today now ld =
     (case ld of
        None \<Rightarrow> Inr None
      | Some s \<Rightarrow>
          if truthy ld then
            (case elapsed_since now s of
               Inr d \<Rightarrow>
                 if d < one_day then
                   (let remaining = one_day - d;
                        seconds = (remaining div 1000000) mod 86400;
                        hours = seconds div 3600;
                        minutes = (seconds mod 3600) div 60
                    in Inr (Some (hours, minutes)))
                 else Inr None
             | Inl ValueError \<Rightarrow> Inr None
             | Inl e \<Rightarrow> Inl e)
          else Inr None)"

definition daily_reward :: "int \<Rightarrow> int \<Rightarrow> store \<Rightarrow> (error + reply) \<times> store" where
  "daily_reward now author_id st =
     (let user_id = str author_id;
          (st1, user) = ensure_user_data now user_id st
      in case claimed_today now (last_daily user) of
           Inl e \<Rightarrow> (Inl e, st1)
         | Inr (Some (hours, minutes)) \<Rightarrow> (Inr (AlreadyClaimed hours minutes), st1)
         | Inr None \<Rightarrow>
             (let base_reward = 100;
                  level_bonus = level user * 10;
                  total_reward = base_reward + level_bonus;
                  u1 = user\<lparr>money := money user + total_reward,
                            exp' := exp' user + 25,
                            last_daily := Some (Aware now),
                            command_usage := command_usage user + 1\<rparr>;
                  level_up_exp = level u1 * 100
              in if exp' u1 \<ge> level_up_exp then
                   (let u2 = u1\<lparr>level := level u1 + 1, exp' := 0\<rparr>;
                        level_up_bonus = level u2 * 50;
                        u3 = u2\<lparr>money := money u2 + level_up_bonus\<rparr>
                    in (Inr (Claimed total_reward (Some level_up_bonus) (money u3) (level u3)),
                        AList.update user_id u3 st1))
                 else
                   (Inr (Claimed total_reward None (money u1) (level u1)),
                    AList.update user_id u1 st1)))"

section \<open>Gacha\<close>

text \<open>The weighted item table, label and weight, in the order of the source.\<close>

definition items :: "(ustr \<times> int) list" where
  "items =
     [([127838, 32, 3586, 3609, 3617, 3611, 3633, 3591], 30),
      ([129514, 32, 3614, 3621, 3633, 3591, 3615, 3639, 3657, 3609, 3615, 3641], 25),
      ([128142, 32, 3648, 3614, 3594, 3619, 3648, 3621, 3655, 3585], 20),
      ([127873, 32, 3585, 3621, 3656, 3629, 3591, 3621, 3638, 3585, 3621, 3633, 3610], 15),
      ([9889, 32, 3585, 3619, 3632, 3626, 3640, 3609, 3652, 3617, 3656, 3592, 3635, 3585,
        3633, 3604], 8),
      ([128179, 32, 3610, 3633, 3605, 3619, 3648, 3591, 3636, 3609], 2)]"

text \<open>The text that marks the bonus item (the label of the last entry without its emoji).\<close>

definition bonus_mark :: ustr where
  "bonus_mark = [3610, 3633, 3605, 3619, 3648, 3591, 3636, 3609]"

definition total_weight :: int where
  "total_weight = sum_list (map snd items)"

text \<open>
  The selection loop: \<open>current_weight\<close> accumulates, the first entry with
  \<open>r <= current_weight\<close> is taken. \<open>None\<close> is the loop running off the end of the
  table, which leaves \<open>selected_item\<close> unbound.
\<close>

fun select_item :: "int \<Rightarrow> int \<Rightarrow> (ustr \<times> int) list \<Rightarrow> ustr option" where
  "select_item r current_weight [] = None"
| "select_item r current_weight ((label, weight) # rest) =
     (if r \<le> current_weight + weight then Some label
      else select_item r (current_weight + weight) rest)"

text \<open>
  \<open>random.randint(a, b)\<close> is \<open>a + _randbelow(b + 1 - a)\<close>, and raises \<open>ValueError\<close>
  when the range is empty. \<open>_randbelow(n)\<close> asks the generator for \<open>n.bit_length()\<close> random
  bits, again and again until the number they form is below \<open>n\<close>, and returns that number.
  \<open>draws\<close> is the sequence of numbers the generator gives; \<open>None\<close> is the loop still
  running when the sequence ends.
\<close>

fun randbelow :: "int \<Rightarrow> nat list \<Rightarrow> int option" where
  "randbelow n [] = None"
| "randbelow n (r # draws) = (if int r < n then Some (int r) else randbelow n draws)"

definition randint :: "int \<Rightarrow> int \<Rightarrow> nat list \<Rightarrow> (error + int) option" where
  "randint a b draws =
     (if 0 < b + 1 - a then map_option (\<lambda>r. Inr (a + r)) (randbelow (b + 1 - a) draws)
      else Some (Inl ValueError))"

text \<open>
  The two random numbers of \<open>gacha\<close>: \<open>r = random.randint(1, total_weight)\<close> and, when the
  bonus item is drawn, \<open>bonus_money = random.randint(100, 500)\<close>.
\<close>

definition draw_r :: "nat list \<Rightarrow> (error + int) option" where
  "draw_r draws = randint 1 total_weight draws"

definition draw_bonus_money :: "nat list \<Rightarrow> (error + int) option" where
  "draw_bonus_money draws = randint 100 500 draws"

text \<open>
  \<open>gacha\<close> for the random numbers \<open>r\<close> and \<open>bonus\<close> that \<open>draw_r\<close> and
  \<open>draw_bonus_money\<close> return; \<open>t\<close> is \<open>time.time()\<close> and \<open>now\<close> the clock of
  \<open>datetime.now\<close>.
\<close>

definition gacha ::
  "real \<Rightarrow> int \<Rightarrow> int \<Rightarrow> int \<Rightarrow> int \<Rightarrow> limiter \<Rightarrow> store \<Rightarrow> (error + reply) \<times> limiter \<times> store" where
  "gacha t now author_id r bonus lims st =
     (let (limited, lim1) = is_rate_limited t author_id 3 lims
      in if limited then (Inr Wait, lim1, st)
         else
           (let user_id = str author_id;
                (st1, user) = ensure_user_data now user_id st;
                cost = 50
            in if money user < cost then (Inr (InsufficientFunds cost (money user)), lim1, st1)
               else
                 (let u1 = user\<lparr>money := money user - cost,
                                command_usage := command_usage user + 1\<rparr>
                  in case select_item r 0 items of
                       None \<Rightarrow> (Inl UnboundLocalError, lim1, AList.update user_id u1 st1)
                     | Some selected_item \<Rightarrow>
                         (let u2 = u1\<lparr>inventory := inventory u1 @ [selected_item]\<rparr>;
                              bonus_money = (if sublist bonus_mark selected_item then bonus else 0);
                              u3 = u2\<lparr>money := money u2 + bonus_money\<rparr>
                          in (Inr (Drew selected_item bonus_money (money u3) (length (inventory u3))),
                              lim1, AList.update user_id u3 st1)))))"

section \<open>Profile\<close>

text \<open>
  The online time that \<open>check_profile\<close> shows: the stored total, plus the whole seconds
  of the session in progress when \<open>last_online\<close> can be read.
\<close>

definition online_seconds :: "int \<Rightarrow> user \<Rightarrow> error + int" where
  "online_seconds now u =
     (case last_online u of
        None \<Rightarrow> Inr (total_online u)
      | Some s \<Rightarrow>
          if truthy (last_online u) then
            (case elapsed_since now s of
               Inr d \<Rightarrow> Inr (total_online u + int_total_seconds d)
             | Inl ValueError \<Rightarrow> Inr (total_online u)
             | Inl e \<Rightarrow> Inl e)
          else Inr (total_online u))"

definition check_profile ::
  "real \<Rightarrow> int \<Rightarrow> int \<Rightarrow> int option \<Rightarrow> limiter \<Rightarrow> store \<Rightarrow> (error + reply) \<times> limiter \<times> store" where
  "check_profile t now author_id member lims st =
     (let (limited, lim1) = is_rate_limited t author_id 3 lims
      in if limited then (Inr Wait, lim1, st)
         else
           (let uid = str (case member of Some target \<Rightarrow> target | None \<Rightarrow> author_id);
                (st1, user) = ensure_user_data now uid st;
                u1 = user\<lparr>command_usage := command_usage user + 1\<rparr>;
                st2 = AList.update uid u1 st1
            in case online_seconds now u1 of
                 Inl e \<Rightarrow> (Inl e, lim1, st2)
               | Inr total_seconds \<Rightarrow>
                   (let hours = total_seconds div 3600;
                        minutes = (total_seconds mod 3600) div 60
                    in (Inr (Profile (item u1) (money u1) (level u1) hours minutes
                               (command_usage u1) (take 5 (inventory u1))
                               (length (inventory u1) - 5)),
                        lim1, st2))))"

section \<open>Presence\<close>

datatype status = online | offline | idle | dnd | invisible

text \<open>
  \<open>on_presence_update\<close> catches every exception: the \<open>ValueError\<close> of a malformed
  \<open>last_online\<close> in the inner handler, anything else in the outer one. Both leave the
  record as it was.
\<close>

definition on_presence_update :: "int \<Rightarrow> status \<Rightarrow> status \<Rightarrow> int \<Rightarrow> store \<Rightarrow> store" where
  "on_presence_update now before after after_id st =
     (let uid = str after_id;
          (st1, user) = ensure_user_data now uid st
      in if before \<noteq> online \<and> after = online then
           AList.update uid (user\<lparr>last_online := Some (Aware now)\<rparr>) st1
         else if before = online \<and> after \<noteq> online then
           (case last_online user of
              None \<Rightarrow> st1
            | Some s \<Rightarrow>
                if truthy (last_online user) then
                  (case elapsed_since now s of
                     Inr d \<Rightarrow>
                       (let online_time = int_total_seconds d
                        in AList.update uid
                             (user\<lparr>total_online := total_online user + online_time,
                                   last_online := None\<rparr>) st1)
                   | Inl e \<Rightarrow> st1)
                else st1)
         else st1)"

section \<open>Leaderboard\<close>

text \<open>
  \<open>sorted(xs, key=key, reverse=True)\<close>: CPython reverses the list, sorts it with its
  stable ascending sort and reverses the result.
\<close>

definition sorted_reverse :: "('a \<Rightarrow> int) \<Rightarrow> 'a list \<Rightarrow> 'a list" where
  "sorted_reverse key xs = rev (sort_key key (rev xs))"

definition valid_categories :: "string list" where
  "valid_categories = [''money'', ''level'', ''online'']"

definition fallback :: "string \<Rightarrow> string" where
  "fallback category = (if category \<in> set valid_categories then category else ''money'')"

definition metric :: "string \<Rightarrow> user \<Rightarrow> int" where
  "metric category data =
     (if category = ''money'' then money data
      else if category = ''level'' then level data
      else total_online data)"

definition top_users :: "string \<Rightarrow> store \<Rightarrow> store" where
  "top_users category st = sorted_reverse (\<lambda>x. metric (fallback category) (snd x)) st"

text \<open>The number shown for an entry: hours for the online board, the field otherwise.\<close>

definition shown :: "string \<Rightarrow> user \<Rightarrow> int" where
  "shown category data =
     (if category = ''online'' then total_online data div 3600
      else if category = ''money'' then money data
      else level data)"

text \<open>
  \<open>fetch_user uid\<close> tells whether \<open>bot.fetch_user(int(uid))\<close> succeeds; an entry whose
  user cannot be fetched is skipped and keeps its rank number. The store is only read.
\<close>

definition leaderboard ::
  "real \<Rightarrow> int \<Rightarrow> string \<Rightarrow> (string \<Rightarrow> bool) \<Rightarrow> limiter \<Rightarrow> store \<Rightarrow> reply \<times> limiter \<times> store" where
  "leaderboard t author_id category fetch_user lims st =
     (let (limited, lim1) = is_rate_limited t author_id 10 lims
      in if limited then (Wait, lim1, st)
         else
           (let fields =
                  map (\<lambda>(i, uid, data). (i + 1, uid, shown (fallback category) data))
                    (filter (\<lambda>(i, uid, data). fetch_user uid)
                       (enumerate 0 (take 10 (top_users category st))))
            in (Board (fallback category) fields, lim1, st)))"

section \<open>Loading the data file\<close>











section \<open>Predicates used in the statements\<close>

text \<open>A reply that says the daily reward was handed out.\<close>

fun is_claimed :: "error + reply \<Rightarrow> bool" where
  "is_claimed (Inr (Claimed r b m l)) = True"
| "is_claimed _ = False"

text \<open>
  The finite doubles: the reals \<open>m * 2 powi e\<close> for integers \<open>m\<close> and \<open>e\<close> with
  \<open>\<bar>m\<bar> < 2 ^ 53\<close> and \<open>- 1074 \<le> e \<le> 971\<close>; \<open>k\<close> below is \<open>e + 1074\<close>.
\<close>

definition is_double :: "real \<Rightarrow> bool" where
  "is_double x \<longleftrightarrow>
     (\<exists>m::int. \<exists>k::nat. \<bar>m\<bar> < 2 ^ 53 \<and> k \<le> 2045 \<and> x * 2 ^ 1074 = of_int m * 2 ^ k)"

section \<open>Facts about the helpers\<close>

lemma str_7: "str 7 = ''7''"
  by code_simp







lemma ensure_user_data_present:
  "map_of st uid = Some u \<Longrightarrow> ensure_user_data now uid st = (st, u)"
  by (simp add: ensure_user_data_def)

lemma ensure_user_data_lookup:
  "ensure_user_data now uid st = (st1, u) \<Longrightarrow> map_of st1 uid = Some u"
  by (auto simp: ensure_user_data_def update_conv' split: option.splits)

lemma map_of_update_same: "map_of (AList.update k v al) k = Some v"
  by (simp add: update_conv')

lemma rne_of_int: "rne (of_int i) = i"
  by (simp add: rne_def)

lemma rne_ge: "of_int k \<le> y \<Longrightarrow> k \<le> rne y"
proof -
  assume "of_int k \<le> y"
  then have "k \<le> \<lfloor>y\<rfloor>" by (simp add: le_floor_iff)
  moreover have "\<lfloor>y\<rfloor> \<le> rne y" by (simp add: rne_def)
  ultimately show ?thesis by simp
qed

lemma rne_le: "of_int (rne y) \<le> y + 1 / 2"
  unfolding rne_def by (simp; linarith)

lemma power_int_le_1: "n \<le> 0 \<Longrightarrow> (2::real) powi n \<le> 1"
  by (simp add: power_int_def power_le_one)

lemma exponent_le:
  assumes "x \<noteq> 0" and "\<bar>x\<bar> < 2 powi (E + 1)"
  shows "exponent x \<le> E"
proof (cases "1 \<le> \<bar>x\<bar>")
  case True
  with assms(2) have "(1::real) < 2 powi (E + 1)" by simp
  with power_int_le_1 [of "E + 1"] have pos: "0 < E + 1"
    by (cases "0 < E + 1") simp_all
  then have w: "int (nat (E + 1)) = E + 1" by simp
  from pos have "2 powi (E + 1) = (2::real) ^ nat (E + 1)"
    by (simp add: power_int_def)
  with assms(2) have "\<bar>x\<bar> < 2 ^ nat (E + 1)" by simp
  then have "\<lfloor>\<bar>x\<bar>\<rfloor> < 2 ^ nat (E + 1)"
    by (simp add: floor_less_iff)
  with pos have "bitlen \<lfloor>\<bar>x\<bar>\<rfloor> \<le> E + 1"
    by (simp add: bitlen_le_iff_power)
  with True show ?thesis by (simp add: exponent_def)
next
  case False
  then have lt: "\<bar>x\<bar> < 1" by simp
  have nn: "0 \<le> bitlen (\<lceil>1 / \<bar>x\<bar>\<rceil> - 1)" by (rule bitlen_nonneg)
  show ?thesis
  proof (cases "0 \<le> E")
    case True
    with nn lt show ?thesis by (simp add: exponent_def)
  next
    case neg: False
    define j where "j = nat (- (E + 1))"
    have E: "E + 1 = - int j" using neg by (simp add: j_def)
    have px: "0 < \<bar>x\<bar>" using assms(1) by simp
    have "\<bar>x\<bar> < 1 / 2 ^ j"
      using assms(2) by (simp add: E power_int_minus field_simps)
    then have "2 ^ j < 1 / \<bar>x\<bar>"
      using px by (simp add: field_simps)
    also have "\<dots> \<le> of_int \<lceil>1 / \<bar>x\<bar>\<rceil>" by (rule le_of_int_ceiling)
    finally have "(of_int (2 ^ j) :: real) < of_int \<lceil>1 / \<bar>x\<bar>\<rceil>" by simp
    then have "(2::int) ^ j < \<lceil>1 / \<bar>x\<bar>\<rceil>" by (simp only: of_int_less_iff)
    then have "(2::int) ^ j \<le> \<lceil>1 / \<bar>x\<bar>\<rceil> - 1" by simp
    moreover have "nat (1 + int j) - Suc 0 = j" by arith
    ultimately have "int (j + 1) \<le> bitlen (\<lceil>1 / \<bar>x\<bar>\<rceil> - 1)"
      by (simp add: bitlen_ge_iff_power)
    with lt E show ?thesis by (simp add: exponent_def)
  qed
qed

lemma round_double_exact:
  assumes "is_double x"
  shows "round_double x = x"
proof (cases "x = 0")
  case True
  then show ?thesis by (simp add: round_double_def)
next
  case False
  from assms obtain m :: int and k :: nat where m: "\<bar>m\<bar> < 2 ^ 53" and k: "k \<le> 2045"
    and x: "x * 2 ^ 1074 = of_int m * 2 ^ k" unfolding is_double_def by blast
  have pw: "(2::real) powi (int k - 1074) = 2 ^ k / 2 ^ 1074"
    by (simp add: power_int_diff)
  have "x = of_int m * (2 ^ k / 2 ^ 1074)"
    using x by (simp add: field_simps)
  then have xe: "x = of_int m * 2 powi (int k - 1074)"
    by (simp only: pw)
  have "\<bar>x\<bar> = \<bar>of_int m\<bar> * 2 powi (int k - 1074)"
    by (subst xe) (simp add: abs_mult)
  also have "\<dots> < 2 ^ 53 * 2 powi (int k - 1074)"
  proof (rule mult_strict_right_mono)
    from m have "real_of_int \<bar>m\<bar> < real_of_int (2 ^ 53)" by (simp only: of_int_less_iff)
    then show "\<bar>real_of_int m\<bar> < 2 ^ 53" by simp
    show "(0::real) < 2 powi (int k - 1074)" by simp
  qed
  also have "\<dots> = 2 powi 53 * 2 powi (int k - 1074)"
    by simp
  also have "\<dots> = 2 powi (53 + (int k - 1074))"
    by (rule power_int_add [symmetric]) simp
  finally have "\<bar>x\<bar> < 2 powi (53 + (int k - 1074))" .
  then have "\<bar>x\<bar> < 2 powi ((int k - 1074 + 52) + 1)"
    by (simp add: algebra_simps)
  from exponent_le [OF False this] have ex: "exponent x - 52 \<le> int k - 1074" by simp
  define e where "e = max (exponent x - 52) (- 1074)"
  have e: "e \<le> int k - 1074" using ex by (simp add: e_def)
  define s where "s = nat (int k - 1074 - e)"
  have s: "int k - 1074 = e + int s" using e by (simp add: s_def)
  have x2: "x = of_int (m * 2 ^ s) * 2 powi e"
    by (simp add: xe s power_int_add)
  have "x * 2 powi (- e) = of_int (m * 2 ^ s)"
    by (subst x2) (simp add: power_int_minus)
  then have "rne (x * 2 powi (- e)) = m * 2 ^ s"
    by (simp only: rne_of_int)
  then have "round_double x = of_int (m * 2 ^ s) * 2 powi e"
    using False by (simp only: round_double_def Let_def e_def [symmetric] if_False)
  with x2 show ?thesis by simp
qed

lemma round_double_nonneg: "0 \<le> x \<Longrightarrow> 0 \<le> round_double x"
proof -
  assume x: "0 \<le> x"
  have "0 \<le> rne (x * 2 powi e)" for e
    by (rule rne_ge) (use x in simp)
  then show ?thesis by (simp add: round_double_def Let_def)
qed

lemma int_total_seconds_nonneg: "0 \<le> d \<Longrightarrow> 0 \<le> int_total_seconds d"
  using round_double_nonneg [of "of_int d / 1000000"]
  by (simp add: int_total_seconds_def int_of_float_def)

lemma int_total_seconds_floor:
  assumes "0 \<le> d" and "d < 17179869184000000"
  shows "int_total_seconds d = d div 1000000"
proof (cases "d = 0")
  case True
  then show ?thesis by (simp add: int_total_seconds_def int_of_float_def round_double_def)
next
  case False
  define x :: real where "x = of_int d / 1000000"
  define q where "q = d div 1000000"
  have xpos: "0 < x" using assms(1) False by (simp add: x_def)
  then have x0: "x \<noteq> 0" by simp
  have "x < 17179869184" using assms(2) by (simp add: x_def)
  then have "\<bar>x\<bar> < 2 powi (33 + 1)" using xpos by simp
  from exponent_le [OF x0 this] have ex: "exponent x \<le> 33" .
  define e where "e = max (exponent x - 52) (- 1074)"
  define s where "s = nat (- e)"
  have e: "e = - int s" and s19: "19 \<le> s" using ex by (simp_all add: e_def s_def)
  have p1: "(2::real) powi (- e) = 2 ^ s" by (simp add: e)
  have p2: "(2::real) powi e = 1 / 2 ^ s" by (simp add: e power_int_minus field_simps)
  define r where "r = rne (x * 2 ^ s)"
  have rd: "round_double x = of_int r / 2 ^ s"
    using x0 by (simp add: round_double_def Let_def e_def [symmetric] p1 p2 r_def)
  have qx: "of_int q \<le> x"
  proof -
    have "q * 1000000 \<le> d" by (simp add: q_def)
    then have "real_of_int (q * 1000000) \<le> of_int d" by (simp only: of_int_le_iff)
    then show ?thesis by (simp add: x_def field_simps)
  qed
  have xq: "x \<le> of_int q + 1 - 1 / 1000000"
  proof -
    have "d = q * 1000000 + d mod 1000000" by (simp add: q_def)
    moreover have "d mod 1000000 < 1000000" by simp
    ultimately have "d \<le> q * 1000000 + 999999" by linarith
    then have "real_of_int d \<le> of_int (q * 1000000 + 999999)" by (simp only: of_int_le_iff)
    then show ?thesis by (simp add: x_def field_simps)
  qed
  have lo: "of_int q \<le> round_double x"
  proof -
    have "real_of_int (q * 2 ^ s) \<le> x * 2 ^ s" using qx by simp
    then have "q * 2 ^ s \<le> r" unfolding r_def by (rule rne_ge)
    then have "real_of_int (q * 2 ^ s) \<le> of_int r" by (simp only: of_int_le_iff)
    then show ?thesis by (simp add: rd field_simps)
  qed
  have hi: "round_double x < of_int q + 1"
  proof -
    have "real_of_int r \<le> x * 2 ^ s + 1 / 2" unfolding r_def by (rule rne_le)
    then have "round_double x \<le> x + 1 / (2 * 2 ^ s)" by (simp add: rd field_simps)
    moreover have "(2::real) ^ 19 \<le> 2 ^ s" using s19 by (rule power_increasing) simp
    then have "1 / (2 * 2 ^ s) \<le> 1 / (2 * (2::real) ^ 19)"
      by (intro divide_left_mono) simp_all
    moreover have "1 / (2 * (2::real) ^ 19) < 1 / 1000000" by simp
    ultimately show ?thesis using xq by linarith
  qed
  have nn: "0 \<le> round_double x" using xpos by (intro round_double_nonneg) simp
  have "\<lfloor>round_double x\<rfloor> = q"
    using lo hi by (simp add: floor_eq_iff)
  with nn show ?thesis
    by (simp add: int_total_seconds_def int_of_float_def x_def [symmetric] q_def)
qed

lemma is_double_0: "is_double 0"
  unfolding is_double_def by (rule exI [of _ 0], rule exI [of _ 0]) simp

lemma is_double_of_int: "\<bar>i\<bar> < 2 ^ 53 \<Longrightarrow> is_double (of_int i)"
  unfolding is_double_def by (rule exI [of _ i], rule exI [of _ 1074]) simp

lemma is_double_now: "is_double 1700000000"
  using is_double_of_int [of 1700000000] by simp

lemma sterbenz_scaled:
  fixes a b P :: real
  assumes a: "a * P = of_int ma * 2 ^ ka" and b: "b * P = of_int mb * 2 ^ kb"
    and le: "ka \<le> kb" and P: "0 < P"
    and bound: "\<bar>a - b\<bar> \<le> \<bar>a\<bar>"
  shows "(a - b) * P = of_int (ma - mb * 2 ^ (kb - ka)) * 2 ^ ka \<and>
         \<bar>ma - mb * 2 ^ (kb - ka)\<bar> \<le> \<bar>ma\<bar>"
proof -
  define m where "m = ma - mb * 2 ^ (kb - ka)"
  have kb: "(2::real) ^ kb = 2 ^ (kb - ka) * 2 ^ ka"
    using le by (simp flip: power_add)
  have eq: "(a - b) * P = of_int m * 2 ^ ka"
    by (simp add: m_def left_diff_distrib a b kb)
  have "\<bar>of_int m :: real\<bar> * 2 ^ ka = \<bar>of_int m * 2 ^ ka\<bar>"
    by (simp add: abs_mult)
  also have "\<dots> = \<bar>(a - b) * P\<bar>"
    by (simp only: eq)
  also have "\<dots> = \<bar>a - b\<bar> * P"
    using P by (simp add: abs_mult)
  also have "\<dots> \<le> \<bar>a\<bar> * P"
    using bound P by (simp add: mult_right_mono)
  also have "\<dots> = \<bar>a * P\<bar>"
    using P by (simp add: abs_mult)
  also have "\<dots> = \<bar>of_int ma * 2 ^ ka\<bar>"
    by (simp only: a)
  also have "\<dots> = \<bar>of_int ma :: real\<bar> * 2 ^ ka"
    by (simp add: abs_mult)
  finally have "\<bar>of_int m :: real\<bar> \<le> \<bar>of_int ma\<bar>"
    by simp
  then have "\<bar>m\<bar> \<le> \<bar>ma\<bar>"
    by (simp flip: of_int_abs)
  with eq show ?thesis unfolding m_def by simp
qed

lemma sterbenz_aux:
  fixes a b :: real
  assumes a: "a * 2 ^ 1074 = of_int ma * 2 ^ ka" and b: "b * 2 ^ 1074 = of_int mb * 2 ^ kb"
    and le: "ka \<le> kb" and ma: "\<bar>ma\<bar> < 2 ^ 53" and ka: "ka \<le> 2045"
    and bound: "\<bar>a - b\<bar> \<le> \<bar>a\<bar>"
  shows "is_double (a - b)"
proof -
  have P: "(0::real) < 2 ^ 1074" by (rule zero_less_power) simp
  note r = sterbenz_scaled [OF a b le P bound]
  from r [THEN conjunct2] ma have "\<bar>ma - mb * 2 ^ (kb - ka)\<bar> < 2 ^ 53" by (rule le_less_trans)
  with ka r [THEN conjunct1] show ?thesis unfolding is_double_def by blast
qed

lemma is_double_uminus: "is_double x \<Longrightarrow> is_double (- x)"
  unfolding is_double_def
  apply (elim exE conjE)
  subgoal for m k by (rule exI [of _ "- m"], rule exI [of _ k]) simp
  done

lemma sterbenz:
  assumes "is_double a" and "is_double b" and "b / 2 \<le> a" and "a \<le> 2 * b"
  shows "is_double (a - b)"
proof -
  from assms(1) obtain ma ka where a: "\<bar>ma\<bar> < 2 ^ 53" "ka \<le> 2045"
    "a * 2 ^ 1074 = of_int ma * 2 ^ ka" unfolding is_double_def by blast
  from assms(2) obtain mb kb where b: "\<bar>mb\<bar> < 2 ^ 53" "kb \<le> 2045"
    "b * 2 ^ 1074 = of_int mb * 2 ^ kb" unfolding is_double_def by blast
  from assms(3,4) have nn: "0 \<le> a" "0 \<le> b" by simp_all
  show ?thesis
  proof (cases "ka \<le> kb")
    case True
    have "\<bar>a - b\<bar> \<le> \<bar>a\<bar>" using assms(3,4) nn by (simp add: abs_le_iff)
    from sterbenz_aux [OF a(3) b(3) True a(1) a(2) this] show ?thesis .
  next
    case False
    then have le: "kb \<le> ka" by simp
    have "\<bar>b - a\<bar> \<le> \<bar>b\<bar>" using assms(3,4) nn by (simp add: abs_le_iff)
    from sterbenz_aux [OF b(3) a(3) le b(1) b(2) this] have "is_double (b - a)" .
    from is_double_uminus [OF this] show ?thesis by simp
  qed
qed

lemma is_double_diff_0: "is_double a \<Longrightarrow> is_double (a - 0)"
  by simp

lemma fsub_exact: "is_double (a - b) \<Longrightarrow> fsub a b = a - b"
  by (simp add: fsub_def round_double_exact)

lemma fsub_now: "fsub 1700000000 0 = 1700000000"
  using fsub_exact [of 1700000000 0] is_double_now by simp

lemma int_total_seconds_125: "int_total_seconds 125000000 = 125"
  by code_simp

lemma int_total_seconds_minus_5: "int_total_seconds (- 5000000) = - 5"
  by code_simp

lemma int_total_seconds_rounds_up: "int_total_seconds 17179869184999999 = 17179869185"
  by code_simp

lemma is_rate_limited_exact:
  assumes "fsub now (last_command m u) = now - last_command m u"
  shows "is_rate_limited now u c m =
     (if now - last_command m u < c then (True, m(u \<mapsto> last_command m u))
      else (False, m(u \<mapsto> now)))"
  using assms by (simp add: is_rate_limited_def last_command_def Let_def)

lemma is_rate_limited_fresh:
  assumes "is_double now" and "c \<le> now"
  shows "\<not> fst (is_rate_limited now a c (map_of []))"
proof -
  have z: "last_command (map_of []) a = 0" by (simp add: last_command_def)
  have "fsub now (last_command (map_of []) a) = now - last_command (map_of []) a"
    unfolding z by (rule fsub_exact) (use assms(1) in simp)
  note r = is_rate_limited_exact [OF this, of c]
  have n: "\<not> now - last_command (map_of []) a < c"
    unfolding z using assms(2) by simp
  have "is_rate_limited now a c (map_of []) = (False, (map_of [])(a \<mapsto> now))"
    unfolding r using n by (rule if_not_P)
  then show ?thesis by (simp only: fst_conv simp_thms)
qed

lemma admitted_3: "\<not> fst (is_rate_limited 1700000000 a 3 (map_of []))"
  by (rule is_rate_limited_fresh [OF is_double_now]) simp

lemma admitted_10: "\<not> fst (is_rate_limited 1700000000 a 10 (map_of []))"
  by (rule is_rate_limited_fresh [OF is_double_now]) simp

section \<open>Rate limiter\<close>

text \<open>
  C6: a clock reading is a double, and the timestamp stored for an identifier is \<open>0.0\<close>
  when the identifier was never admitted, or else an earlier clock reading, which lies
  within a factor of two of the current one. For every identifier and cooldown, the call is
  then admitted, and the current time recorded for the identifier, if and only if the time
  since the stored timestamp is at least the cooldown; a rejected call leaves the stored
  timestamp as it was; no other identifier's entry changes; an identifier with no stored
  timestamp is admitted whenever the clock reading is at least the cooldown, as it is for
  the cooldowns of 3 and 10 seconds that the commands pass; and the stored timestamp is
  again a double.
\<close>

theorem is_rate_limited_admit:
  assumes "is_double now" and "is_double (last_command m u)"
      and "last_command m u = 0 \<or> (last_command m u / 2 \<le> now \<and> now \<le> 2 * last_command m u)"
  shows "(\<not> fst (is_rate_limited now u c m)) = (c \<le> now - last_command m u) \<and>
         last_command (snd (is_rate_limited now u c m)) u =
           (if c \<le> now - last_command m u then now else last_command m u) \<and>
         (\<forall>v. v \<noteq> u \<longrightarrow> snd (is_rate_limited now u c m) v = m v) \<and>
         (m u = None \<and> c \<le> now \<longrightarrow> \<not> fst (is_rate_limited now u c m)) \<and>
         is_double (last_command (snd (is_rate_limited now u c m)) u)"
proof -
  have d: "is_double (now - last_command m u)"
  proof (cases "last_command m u = 0")
    case True
    with assms(1) show ?thesis by simp
  next
    case False
    with assms(3) have "last_command m u / 2 \<le> now" and "now \<le> 2 * last_command m u"
      by simp_all
    then show ?thesis by (rule sterbenz [OF assms(1,2)])
  qed
  note e = is_rate_limited_exact [OF fsub_exact [OF d], of c]
  have c1: "(\<not> fst (is_rate_limited now u c m)) = (c \<le> now - last_command m u)"
    by (simp add: e not_less)
  have c2: "last_command (snd (is_rate_limited now u c m)) u =
           (if c \<le> now - last_command m u then now else last_command m u)"
    by (simp add: e last_command_def)
  have c3: "\<forall>v. v \<noteq> u \<longrightarrow> snd (is_rate_limited now u c m) v = m v"
    by (simp add: e)
  have c4: "m u = None \<and> c \<le> now \<longrightarrow> \<not> fst (is_rate_limited now u c m)"
    by (simp add: c1 last_command_def)
  have c5: "is_double (last_command (snd (is_rate_limited now u c m)) u)"
    unfolding c2 using assms(1,2) by simp
  from c1 c2 c3 c4 c5 show ?thesis by (intro conjI)
qed

theorem is_rate_limited_admit_witness:
  "is_double 1700000000 \<and> is_double (last_command (map_of []) 42) \<and>
   last_command (map_of []) 42 = 0 \<and>
   (map_of [] :: int \<Rightarrow> real option) 42 = None \<and> (3::real) \<le> 1700000000 \<and>
   fst (is_rate_limited 1700000000 42 3 (map_of [])) = False \<and>
   last_command (snd (is_rate_limited 1700000000 42 3 (map_of []))) 42 = 1700000000 \<and>
   snd (is_rate_limited 1700000000 42 3 (map_of [])) 43 = None \<and>
   is_double 1700000001 \<and> is_double (last_command (map_of [(42, 1700000000)]) 42) \<and>
   last_command (map_of [(42, 1700000000)]) 42 / 2 \<le> 1700000001 \<and>
   1700000001 \<le> 2 * last_command (map_of [(42, 1700000000)]) 42 \<and>
   fst (is_rate_limited 1700000001 42 3 (map_of [(42, 1700000000)])) = True \<and>
   last_command (snd (is_rate_limited 1700000001 42 3 (map_of [(42, 1700000000)]))) 42 =
     1700000000 \<and>
   is_double 1700000003 \<and>
   fst (is_rate_limited 1700000003 42 3 (map_of [(42, 1700000000)])) = False"
proof -
  have d0: "is_double 1700000000" by (rule is_double_now)
  have d1: "is_double 1700000001" using is_double_of_int [of 1700000001] by simp
  have d3: "is_double 1700000003" using is_double_of_int [of 1700000003] by simp
  have z: "last_command (map_of []) 42 = 0" by (simp add: last_command_def)
  have s: "last_command (map_of [(42, 1700000000)]) 42 = 1700000000"
    by (simp add: last_command_def)
  have dz: "is_double (last_command (map_of []) 42)" unfolding z by (rule is_double_0)
  have ds: "is_double (last_command (map_of [(42, 1700000000)]) 42)" unfolding s by (rule d0)
  have n: "(map_of [] :: int \<Rightarrow> real option) 42 = None" by simp
  have le: "(3::real) \<le> 1700000000" by simp
  have g1: "last_command (map_of [(42, 1700000000)]) 42 / 2 \<le> 1700000001"
    and g2: "1700000001 \<le> 2 * last_command (map_of [(42, 1700000000)]) 42"
    and g3: "last_command (map_of [(42, 1700000000)]) 42 / 2 \<le> 1700000003"
    and g4: "1700000003 \<le> 2 * last_command (map_of [(42, 1700000000)]) 42"
    unfolding s by simp_all
  note r0 = is_rate_limited_admit [OF d0 dz disjI1 [OF z], of 3]
  note r1 = is_rate_limited_admit [OF d1 ds disjI2 [OF conjI [OF g1 g2]], of 3]
  note r3 = is_rate_limited_admit [OF d3 ds disjI2 [OF conjI [OF g3 g4]], of 3]
  have a0: "fst (is_rate_limited 1700000000 42 3 (map_of [])) = False"
    using r0 [THEN conjunct1, unfolded z] by simp
  have b0: "last_command (snd (is_rate_limited 1700000000 42 3 (map_of []))) 42 = 1700000000"
    using r0 [THEN conjunct2, THEN conjunct1, unfolded z] by simp
  have c0: "snd (is_rate_limited 1700000000 42 3 (map_of [])) 43 = None"
    using r0 [THEN conjunct2, THEN conjunct2, THEN conjunct1, THEN spec, of 43] by simp
  have a1: "fst (is_rate_limited 1700000001 42 3 (map_of [(42, 1700000000)])) = True"
    using r1 [THEN conjunct1, unfolded s] by simp
  have b1: "last_command (snd (is_rate_limited 1700000001 42 3 (map_of [(42, 1700000000)]))) 42 =
     1700000000"
    using r1 [THEN conjunct2, THEN conjunct1, unfolded s] by simp
  have a3: "fst (is_rate_limited 1700000003 42 3 (map_of [(42, 1700000000)])) = False"
    using r3 [THEN conjunct1, unfolded s] by simp
  show ?thesis
    by (intro conjI) (rule d0 dz z n le a0 b0 c0 d1 ds g1 g2 a1 b1 d3 a3)+
qed

text \<open>
  Outside that range the float difference is rounded. At the clock reading \<open>3.1\<close> with
  the stored timestamp \<open>0.1000000000000001\<close> less than 3 seconds have passed, the float
  difference is \<open>3.0\<close>, and the call is admitted.
\<close>

lemma is_rate_limited_rounded:
  "(6980579422424269 / 2 ^ 51 :: real) - 7205759403792801 / 2 ^ 56 < 3 \<and>
   fst (is_rate_limited (6980579422424269 / 2 ^ 51) 42 3
          (map_of [(42, 7205759403792801 / 2 ^ 56)])) = False"
proof -
  have f: "fsub (6980579422424269 / 2 ^ 51) (7205759403792801 / 2 ^ 56) = 3"
    by code_simp
  have s: "last_command (map_of [(42, 7205759403792801 / 2 ^ 56)]) 42 = 7205759403792801 / 2 ^ 56"
    by (simp add: last_command_def)
  have "fst (is_rate_limited (6980579422424269 / 2 ^ 51) 42 3
          (map_of [(42, 7205759403792801 / 2 ^ 56)])) = False"
    unfolding is_rate_limited_def Let_def s
    by (simp add: last_command_def f [simplified])
  then show ?thesis by simp
qed

section \<open>Daily reward: the check, the reward and the level-up\<close>

lemma claimed_today_None: "claimed_today now None = Inr None"
  by (simp add: claimed_today_def)

lemma claimed_today_Malformed: "claimed_today now (Some (Malformed s)) = Inr None"
  by (simp add: claimed_today_def)

lemma claimed_today_Naive: "claimed_today now (Some (Naive t)) = Inl TypeError"
  by (simp add: claimed_today_def)

lemma claimed_today_Aware:
  "claimed_today now (Some (Aware t)) =
     (if now - t < one_day
      then Inr (Some ((((one_day - (now - t)) div 1000000) mod 86400) div 3600,
                      ((((one_day - (now - t)) div 1000000) mod 86400) mod 3600) div 60))
      else Inr None)"
  by (simp add: claimed_today_def Let_def)

lemma claimed_today_passes_iff:
  "claimed_today now ld = Inr None \<longleftrightarrow>
     ld = None \<or> (\<exists>s. ld = Some (Malformed s)) \<or> (\<exists>t. ld = Some (Aware t) \<and> one_day \<le> now - t)"
proof (cases ld)
  case None
  then show ?thesis by (simp add: claimed_today_None)
next
  case (Some s)
  then show ?thesis
    by (cases s) (auto simp: claimed_today_Malformed claimed_today_Naive claimed_today_Aware)
qed

lemma daily_reward_pass:
  assumes "ensure_user_data now (str a) st = (st1, u)"
      and "claimed_today now (last_daily u) = Inr None"
  shows "daily_reward now a st =
     (if level u * 100 \<le> exp' u + 25
      then (Inr (Claimed (100 + level u * 10) (Some ((level u + 1) * 50))
                   (money u + (100 + level u * 10) + (level u + 1) * 50) (level u + 1)),
            AList.update (str a)
              (u\<lparr>last_daily := Some (Aware now),
                 command_usage := command_usage u + 1,
                 level := level u + 1, exp' := 0,
                 money := money u + (100 + level u * 10) + (level u + 1) * 50\<rparr>) st1)
      else (Inr (Claimed (100 + level u * 10) None (money u + (100 + level u * 10)) (level u)),
            AList.update (str a)
              (u\<lparr>money := money u + (100 + level u * 10),
                 exp' := exp' u + 25,
                 last_daily := Some (Aware now),
                 command_usage := command_usage u + 1\<rparr>) st1))"
  using assms by (simp add: daily_reward_def Let_def)

lemma daily_reward_reject:
  assumes "ensure_user_data now (str a) st = (st1, u)"
      and "claimed_today now (last_daily u) = Inr (Some (h, m))"
  shows "daily_reward now a st = (Inr (AlreadyClaimed h m), st1)"
  using assms by (simp add: daily_reward_def Let_def)

lemma daily_reward_raise:
  assumes "ensure_user_data now (str a) st = (st1, u)"
      and "claimed_today now (last_daily u) = Inl e"
  shows "daily_reward now a st = (Inl e, st1)"
  using assms by (simp add: daily_reward_def Let_def)

text \<open>
  C1, as stated, says that a level-up subtracts the crossed threshold from \<open>exp\<close>, so
  that level 1 with 90 exp becomes level 2 with 15 exp. The code sets \<open>exp\<close> to 0: the
  claim gives level 2, 0 exp and 210 money.
\<close>

theorem daily_reward_level_up_counterexample:
  "map_option level (map_of (snd (daily_reward 5 7 [(''7'', (new_user 0)\<lparr>exp' := 90\<rparr>)])) ''7'') = Some 2 \<and>
   map_option exp' (map_of (snd (daily_reward 5 7 [(''7'', (new_user 0)\<lparr>exp' := 90\<rparr>)])) ''7'') = Some 0 \<and>
   map_option exp' (map_of (snd (daily_reward 5 7 [(''7'', (new_user 0)\<lparr>exp' := 90\<rparr>)])) ''7'') \<noteq> Some 15"
  by (simp add: daily_reward_def ensure_user_data_def str_7 new_user_def claimed_today_def Let_def)

text \<open>
  C1, amended: for every user record that passes the daily check, the claim adds
  \<open>100 + level * 10\<close> money and 25 exp, stores the current time in \<open>last_daily\<close> and
  counts the command; then, if the new exp is at least \<open>level * 100\<close>, the level goes up
  by exactly one (one check, no loop), exp is reset to 0, and \<open>newLevel * 50\<close> money is
  added. No other field changes. From level 1 with 90 exp the result is level 2, 0 exp
  and 210 more money.
\<close>

theorem daily_reward_claim:
  assumes "ensure_user_data now (str a) st = (st1, u)"
      and "claimed_today now (last_daily u) = Inr None"
  shows "map_of (snd (daily_reward now a st)) (str a) =
     Some (if level u * 100 \<le> exp' u + 25
           then u\<lparr>money := money u + (100 + level u * 10) + (level u + 1) * 50,
                  level := level u + 1, exp' := 0,
                  last_daily := Some (Aware now),
                  command_usage := command_usage u + 1\<rparr>
           else u\<lparr>money := money u + (100 + level u * 10),
                  exp' := exp' u + 25,
                  last_daily := Some (Aware now),
                  command_usage := command_usage u + 1\<rparr>)"
  by (simp add: daily_reward_pass [OF assms] map_of_update_same)

theorem daily_reward_claim_witness:
  "ensure_user_data 5 (str 7) [(''7'', (new_user 0)\<lparr>exp' := 90\<rparr>)] =
     ([(''7'', (new_user 0)\<lparr>exp' := 90\<rparr>)], (new_user 0)\<lparr>exp' := 90\<rparr>) \<and>
   claimed_today 5 (last_daily ((new_user 0)\<lparr>exp' := 90\<rparr>)) = Inr None \<and>
   map_option level (map_of (snd (daily_reward 5 7 [(''7'', (new_user 0)\<lparr>exp' := 90\<rparr>)])) (str 7)) = Some 2 \<and>
   map_option exp' (map_of (snd (daily_reward 5 7 [(''7'', (new_user 0)\<lparr>exp' := 90\<rparr>)])) (str 7)) = Some 0 \<and>
   map_option money (map_of (snd (daily_reward 5 7 [(''7'', (new_user 0)\<lparr>exp' := 90\<rparr>)])) (str 7)) = Some 210"
proof -
  have h1: "ensure_user_data 5 (str 7) [(''7'', (new_user 0)\<lparr>exp' := 90\<rparr>)] =
     ([(''7'', (new_user 0)\<lparr>exp' := 90\<rparr>)], (new_user 0)\<lparr>exp' := 90\<rparr>)"
    by (simp add: ensure_user_data_def str_7)
  have h2: "claimed_today 5 (last_daily ((new_user 0)\<lparr>exp' := 90\<rparr>)) = Inr None"
    by (simp add: new_user_def claimed_today_def)
  show ?thesis
    using h1 h2 daily_reward_claim [OF h1 h2] by (simp add: new_user_def)
qed

text \<open>
  C5, as stated, says that a claim is valid only if \<open>last_daily\<close> is null or at least 24
  hours old. A record whose \<open>last_daily\<close> is the unparseable text \<open>x\<close> is neither, and
  its claim is accepted.
\<close>

theorem daily_reward_unparseable_counterexample:
  "map_option last_daily
     (map_of [(''7'', (new_user 0)\<lparr>last_daily := Some (Malformed [120])\<rparr>)] ''7'') =
     Some (Some (Malformed [120])) \<and>
   fst (daily_reward 5 7 [(''7'', (new_user 0)\<lparr>last_daily := Some (Malformed [120])\<rparr>)]) =
     Inr (Claimed 110 None 110 1)"
  by (simp add: daily_reward_def ensure_user_data_def str_7 new_user_def claimed_today_def Let_def)

text \<open>
  C5, amended: a daily-reward claim is accepted only if \<open>last_daily\<close> is null, is a text
  that cannot be parsed as a timestamp, or is a timestamp at least 24 hours before now; a
  second claim less than 24 hours after an accepted one is answered with already-claimed
  and leaves the whole store, so money, level and exp too, unchanged.
\<close>

theorem daily_reward_window:
  assumes "ensure_user_data now (str a) st = (st1, u)"
  shows "(is_claimed (fst (daily_reward now a st)) \<longrightarrow>
            last_daily u = None \<or> (\<exists>s. last_daily u = Some (Malformed s)) \<or>
            (\<exists>t. last_daily u = Some (Aware t) \<and> one_day \<le> now - t)) \<and>
         (is_claimed (fst (daily_reward now a st)) \<and> now2 - now < one_day \<longrightarrow>
            (\<exists>h m. daily_reward now2 a (snd (daily_reward now a st)) =
                     (Inr (AlreadyClaimed h m), snd (daily_reward now a st))))"
proof -
  have claimed_iff: "is_claimed (fst (daily_reward now a st)) \<longleftrightarrow> claimed_today now (last_daily u) = Inr None"
  proof (cases "claimed_today now (last_daily u)")
    case (Inl e)
    then show ?thesis by (simp add: daily_reward_raise [OF assms Inl])
  next
    case (Inr x)
    show ?thesis
    proof (cases x)
      case None
      with Inr have p: "claimed_today now (last_daily u) = Inr None" by simp
      show ?thesis by (simp add: daily_reward_pass [OF assms p] p)
    next
      case (Some hm)
      obtain h m where hm: "hm = (h, m)" by (cases hm)
      with Inr Some have r: "claimed_today now (last_daily u) = Inr (Some (h, m))" by simp
      show ?thesis by (simp add: daily_reward_reject [OF assms r] r)
    qed
  qed
  have second: "\<exists>h m. daily_reward now2 a (snd (daily_reward now a st)) =
                     (Inr (AlreadyClaimed h m), snd (daily_reward now a st))"
    if c: "is_claimed (fst (daily_reward now a st))" and w: "now2 - now < one_day"
  proof -
    from c claimed_iff have p: "claimed_today now (last_daily u) = Inr None" by simp
    obtain u' where st': "map_of (snd (daily_reward now a st)) (str a) = Some u'"
      and ld: "last_daily u' = Some (Aware now)"
      by (cases "level u * 100 \<le> exp' u + 25")
         (simp_all add: daily_reward_pass [OF assms p] map_of_update_same)
    have e: "ensure_user_data now2 (str a) (snd (daily_reward now a st)) = (snd (daily_reward now a st), u')"
      by (rule ensure_user_data_present [OF st'])
    from w have "\<exists>h m. claimed_today now2 (last_daily u') = Inr (Some (h, m))"
      by (simp add: ld claimed_today_Aware)
    then obtain h m where r: "claimed_today now2 (last_daily u') = Inr (Some (h, m))" by blast
    show ?thesis using daily_reward_reject [OF e r] by blast
  qed
  show ?thesis using claimed_iff claimed_today_passes_iff [of now "last_daily u"] second by blast
qed

theorem daily_reward_window_witness:
  "ensure_user_data 1700000000000000 (str 7) [(''7'', new_user 0)] =
     ([(''7'', new_user 0)], new_user 0) \<and>
   is_claimed (fst (daily_reward 1700000000000000 7 [(''7'', new_user 0)])) \<and>
   last_daily (new_user 0) = None \<and>
   (1700003600000000::int) - 1700000000000000 < one_day \<and>
   (\<exists>h m. daily_reward 1700003600000000 7
             (snd (daily_reward 1700000000000000 7 [(''7'', new_user 0)])) =
           (Inr (AlreadyClaimed h m),
            snd (daily_reward 1700000000000000 7 [(''7'', new_user 0)])))"
proof -
  have h: "ensure_user_data 1700000000000000 (str 7) [(''7'', new_user 0)] =
     ([(''7'', new_user 0)], new_user 0)"
    by (simp add: ensure_user_data_def str_7)
  note r = daily_reward_window [OF h, where ?now2.0 = 1700003600000000]
  have p: "claimed_today 1700000000000000 (last_daily (new_user 0)) = Inr None"
    by (simp add: new_user_def claimed_today_None)
  have a: "is_claimed (fst (daily_reward 1700000000000000 7 [(''7'', new_user 0)]))"
    by (simp add: daily_reward_pass [OF h p])
  have b: "last_daily (new_user 0) = None"
    by (simp add: new_user_def)
  have w: "(1700003600000000::int) - 1700000000000000 < one_day"
    by (simp add: one_day_def)
  have c: "\<exists>h m. daily_reward 1700003600000000 7
             (snd (daily_reward 1700000000000000 7 [(''7'', new_user 0)])) =
           (Inr (AlreadyClaimed h m),
            snd (daily_reward 1700000000000000 7 [(''7'', new_user 0)]))"
    by (rule r [THEN conjunct2, THEN mp, OF conjI [OF a w]])
  show ?thesis
    by (intro conjI) (rule h a b w c)+
qed

text \<open>
  C9: for every user record whose \<open>last_daily\<close> is a text that cannot be parsed as a
  timestamp, the claim is accepted: the reward (and the level-up bonus when due) is added
  and \<open>last_daily\<close> becomes the current time; nothing is rejected and no exception
  leaves the function.
\<close>

theorem daily_reward_malformed:
  assumes "map_of st (str a) = Some u" and "last_daily u = Some (Malformed s)"
  shows "is_claimed (fst (daily_reward now a st)) \<and>
         map_option last_daily (map_of (snd (daily_reward now a st)) (str a)) = Some (Some (Aware now)) \<and>
         map_option money (map_of (snd (daily_reward now a st)) (str a)) =
           Some (money u + (100 + level u * 10) +
                 (if level u * 100 \<le> exp' u + 25 then (level u + 1) * 50 else 0)) \<and>
         map_option exp' (map_of (snd (daily_reward now a st)) (str a)) =
           Some (if level u * 100 \<le> exp' u + 25 then 0 else exp' u + 25)"
proof -
  have e: "ensure_user_data now (str a) st = (st, u)"
    by (rule ensure_user_data_present [OF assms(1)])
  have p: "claimed_today now (last_daily u) = Inr None"
    by (simp add: assms(2) claimed_today_Malformed)
  show ?thesis
    by (simp add: daily_reward_pass [OF e p] map_of_update_same)
qed

theorem daily_reward_malformed_witness:
  "map_of [(''7'', (new_user 0)\<lparr>last_daily := Some (Malformed [120])\<rparr>)] (str 7) =
     Some ((new_user 0)\<lparr>last_daily := Some (Malformed [120])\<rparr>) \<and>
   last_daily ((new_user 0)\<lparr>last_daily := Some (Malformed [120])\<rparr>) = Some (Malformed [120]) \<and>
   is_claimed (fst (daily_reward 1700000000000000 7
     [(''7'', (new_user 0)\<lparr>last_daily := Some (Malformed [120])\<rparr>)])) \<and>
   map_option last_daily (map_of (snd (daily_reward 1700000000000000 7
     [(''7'', (new_user 0)\<lparr>last_daily := Some (Malformed [120])\<rparr>)])) (str 7)) =
     Some (Some (Aware 1700000000000000))"
proof -
  have h1: "map_of [(''7'', (new_user 0)\<lparr>last_daily := Some (Malformed [120])\<rparr>)] (str 7) =
     Some ((new_user 0)\<lparr>last_daily := Some (Malformed [120])\<rparr>)"
    by (simp add: str_7)
  have h2: "last_daily ((new_user 0)\<lparr>last_daily := Some (Malformed [120])\<rparr>) =
     Some (Malformed [120])"
    by simp
  note r = daily_reward_malformed [OF h1 h2, where now = 1700000000000000]
  show ?thesis
    by (intro conjI) (rule h1 h2 r [THEN conjunct1] r [THEN conjunct2, THEN conjunct1])+
qed

section \<open>Gacha: cost, selection and bonus\<close>

lemma total_weight_100: "total_weight = 100"
  by (simp add: total_weight_def items_def)

lemma select_item_in_range:
  "cw < r \<Longrightarrow> r \<le> cw + sum_list (map snd tbl) \<Longrightarrow>
   \<exists>label. select_item r cw tbl = Some label \<and> label \<in> fst ` set tbl"
proof (induction tbl arbitrary: cw)
  case Nil
  then show ?case by simp
next
  case (Cons p tbl)
  obtain label weight where p: "p = (label, weight)" by (cases p)
  show ?case
  proof (cases "r \<le> cw + weight")
    case True
    then show ?thesis by (simp add: p)
  next
    case False
    then have "cw + weight < r" by simp
    moreover from Cons.prems have "r \<le> (cw + weight) + sum_list (map snd tbl)"
      by (simp add: p)
    ultimately obtain l where "select_item r (cw + weight) tbl = Some l" "l \<in> fst ` set tbl"
      using Cons.IH by blast
    with False show ?thesis by (simp add: p)
  qed
qed

lemma select_item_items:
  "select_item r 0 items =
     (if r \<le> 30 then Some (fst (items ! 0))
      else if r \<le> 55 then Some (fst (items ! 1))
      else if r \<le> 75 then Some (fst (items ! 2))
      else if r \<le> 90 then Some (fst (items ! 3))
      else if r \<le> 98 then Some (fst (items ! 4))
      else if r \<le> 100 then Some (fst (items ! 5))
      else None)"
  by (simp add: items_def)

lemma bonus_mark_labels:
  "map (\<lambda>p. sublist bonus_mark (fst p)) items = [False, False, False, False, False, True]"
  by (simp add: items_def bonus_mark_def sublist_Cons_right)

lemma select_item_bonus:
  assumes "select_item r 0 items = Some label"
  shows "sublist bonus_mark label \<longleftrightarrow> 98 < r"
    and "sublist bonus_mark label \<longleftrightarrow> label = fst (last items)"
  using assms bonus_mark_labels
  by (auto simp: select_item_items items_def split: if_splits)

lemma gacha_limited:
  "fst (is_rate_limited t a 3 lims) \<Longrightarrow>
   gacha t now a r bonus lims st = (Inr Wait, snd (is_rate_limited t a 3 lims), st)"
  by (simp add: gacha_def split_beta)

lemma gacha_insufficient:
  assumes "\<not> fst (is_rate_limited t a 3 lims)"
      and "ensure_user_data now (str a) st = (st1, u)"
      and "money u < 50"
  shows "gacha t now a r bonus lims st =
           (Inr (InsufficientFunds 50 (money u)), snd (is_rate_limited t a 3 lims), st1)"
  using assms by (simp add: gacha_def split_beta Let_def)

lemma gacha_drawn:
  assumes "\<not> fst (is_rate_limited t a 3 lims)"
      and "ensure_user_data now (str a) st = (st1, u)"
      and "\<not> money u < 50"
      and "select_item r 0 items = Some label"
  shows "gacha t now a r bonus lims st =
           (Inr (Drew label (if sublist bonus_mark label then bonus else 0)
                   (money u - 50 + (if sublist bonus_mark label then bonus else 0))
                   (Suc (length (inventory u)))),
            snd (is_rate_limited t a 3 lims),
            AList.update (str a)
              (u\<lparr>command_usage := command_usage u + 1,
                 inventory := inventory u @ [label],
                 money := money u - 50 + (if sublist bonus_mark label then bonus else 0)\<rparr>) st1)"
  using assms by (simp add: gacha_def split_beta Let_def)

lemma randbelow_range: "randbelow n draws = Some r \<Longrightarrow> 0 \<le> r \<and> r < n"
  by (induction draws) (auto split: if_splits)

lemma randint_range:
  assumes "randint a b draws = Some (Inr v)"
  shows "a \<le> v \<and> v \<le> b"
proof -
  from assms have w: "0 < b + 1 - a"
    by (auto simp: randint_def split: if_splits)
  with assms obtain r where r: "randbelow (b + 1 - a) draws = Some r" and v: "v = a + r"
    by (auto simp: randint_def)
  from randbelow_range [OF r] v show ?thesis by simp
qed

lemma randint_single: "a \<le> v \<Longrightarrow> v \<le> b \<Longrightarrow> randint a b [nat (v - a)] = Some (Inr v)"
  by (simp add: randint_def)

lemma randbelow_exchange:
  assumes "int x < n" and "int y < n"
  shows "randbelow n (map (id(x := y, y := x)) draws) =
         map_option (\<lambda>r. int ((id(x := y, y := x)) (nat r))) (randbelow n draws)"
  using assms by (induction draws) auto

lemma randint_exchange:
  assumes "a \<le> v" and "v \<le> b" and "a \<le> w" and "w \<le> b"
      and "randint a b draws = Some (Inr v)"
  shows "randint a b (map (id(nat (v - a) := nat (w - a), nat (w - a) := nat (v - a))) draws) =
         Some (Inr w)"
proof -
  from assms(1,2) have n: "0 < b + 1 - a" by simp
  with assms(5) obtain r where r: "randbelow (b + 1 - a) draws = Some r" and v: "v = a + r"
    by (auto simp: randint_def)
  have x: "int (nat (v - a)) < b + 1 - a" and y: "int (nat (w - a)) < b + 1 - a"
    using assms(1-4) by simp_all
  from v have rv: "r = v - a" by simp
  have "randbelow (b + 1 - a)
          (map (id(nat (v - a) := nat (w - a), nat (w - a) := nat (v - a))) draws) =
        map_option (\<lambda>r. int ((id(nat (v - a) := nat (w - a), nat (w - a) := nat (v - a))) (nat r)))
          (randbelow (b + 1 - a) draws)"
    by (rule randbelow_exchange [OF x y])
  also have "\<dots> = Some (w - a)"
    using assms(3) by (simp add: r rv)
  finally show ?thesis using n by (simp add: randint_def)
qed

lemma randint_uniform:
  assumes "a \<le> v" and "v \<le> b" and "a \<le> w" and "w \<le> b" and "b + 1 - a \<le> int K"
  shows "card {ds. length ds = L \<and> set ds \<subseteq> {..<K} \<and> randint a b ds = Some (Inr v)} =
         card {ds. length ds = L \<and> set ds \<subseteq> {..<K} \<and> randint a b ds = Some (Inr w)}"
proof -
  define x where "x = nat (v - a)"
  define y where "y = nat (w - a)"
  define f where "f = map (id(x := y, y := x))"
  let ?A = "\<lambda>z. {ds. length ds = L \<and> set ds \<subseteq> {..<K} \<and> randint a b ds = Some (Inr z)}"
  have xy: "x < K" "y < K" using assms by (simp_all add: x_def y_def)
  have sym: "id(y := x, x := y) = id(x := y, y := x)" by auto
  have inv: "f (f ds) = ds" for ds
    by (simp add: f_def comp_def) (rule map_idI, simp)
  have bound: "set (f ds) \<subseteq> {..<K}" if "set ds \<subseteq> {..<K}" for ds
    using that xy by (auto simp: f_def)
  have fw: "f ds \<in> ?A w" if "ds \<in> ?A v" for ds
    using that bound [of ds] randint_exchange [OF assms(1-4), of ds]
    by (simp add: f_def x_def y_def)
  have bw: "f ds \<in> ?A v" if "ds \<in> ?A w" for ds
    using that bound [of ds] randint_exchange [OF assms(3,4,1,2), of ds]
    by (simp add: f_def x_def y_def sym [unfolded x_def y_def])
  have "f ` ?A v = ?A w"
  proof (intro equalityI subsetI)
    fix ds assume "ds \<in> f ` ?A v"
    then show "ds \<in> ?A w" using fw by blast
  next
    fix ds assume "ds \<in> ?A w"
    then have "f ds \<in> ?A v" by (rule bw)
    then have "f (f ds) \<in> f ` ?A v" by (rule imageI)
    then show "ds \<in> f ` ?A v" by (simp only: inv)
  qed
  moreover have "inj_on f (?A v)"
    by (rule inj_on_inverseI [of _ f]) (rule inv)
  ultimately show ?thesis using card_image [of f "?A v"] by simp
qed

text \<open>
  C4: for a call that the rate limiter admits, with \<open>r\<close> and the bonus the numbers that
  \<open>random.randint(1, total_weight)\<close> and \<open>random.randint(100, 500)\<close> return: if the money
  of the record is below 50, the reply is insufficient funds and the store, with the record
  in it, is as it was looked up; otherwise the money afterwards is the money before minus
  50, plus the bonus exactly when the drawn label is the last entry of the table (the bonus
  item), one label of the table is appended to the inventory and the command is counted.
  The bonus lies between 100 and 500 and is uniform there: each of these values is returned
  for some draw of the generator, and among the sequences of \<open>n\<close> nine-bit draws as many
  give one value as give any other.
\<close>

theorem gacha_money:
  assumes "\<not> fst (is_rate_limited t a 3 lims)"
      and "ensure_user_data now (str a) st = (st1, u)"
      and "draw_r draws1 = Some (Inr r)"
      and "draw_bonus_money draws2 = Some (Inr bonus)"
  shows "(if money u < 50
          then fst (gacha t now a r bonus lims st) = Inr (InsufficientFunds 50 (money u)) \<and>
               snd (snd (gacha t now a r bonus lims st)) = st1 \<and>
               map_of st1 (str a) = Some u
          else (\<exists>label d.
                 label \<in> fst ` set items \<and>
                 map_of (snd (snd (gacha t now a r bonus lims st))) (str a) =
                   Some (u\<lparr>command_usage := command_usage u + 1,
                           inventory := inventory u @ [label],
                           money := money u - 50 + d\<rparr>) \<and>
                 (if label = fst (last items) then d = bonus \<and> 100 \<le> d \<and> d \<le> 500 else d = 0))) \<and>
         (\<forall>v\<in>{100..500}. \<forall>w\<in>{100..500}.
            card {ds. length ds = n \<and> set ds \<subseteq> {..<512} \<and> draw_bonus_money ds = Some (Inr v)} =
            card {ds. length ds = n \<and> set ds \<subseteq> {..<512} \<and> draw_bonus_money ds = Some (Inr w)}) \<and>
         (\<forall>v\<in>{100..500}. draw_bonus_money [nat (v - 100)] = Some (Inr v))"
proof -
  from randint_range [OF assms(3) [unfolded draw_r_def]] total_weight_100
  have r: "1 \<le> r" "r \<le> 100" by simp_all
  from randint_range [OF assms(4) [unfolded draw_bonus_money_def]]
  have b: "100 \<le> bonus" "bonus \<le> 500" by simp_all
  have first: "if money u < 50
          then fst (gacha t now a r bonus lims st) = Inr (InsufficientFunds 50 (money u)) \<and>
               snd (snd (gacha t now a r bonus lims st)) = st1 \<and>
               map_of st1 (str a) = Some u
          else (\<exists>label d.
                 label \<in> fst ` set items \<and>
                 map_of (snd (snd (gacha t now a r bonus lims st))) (str a) =
                   Some (u\<lparr>command_usage := command_usage u + 1,
                           inventory := inventory u @ [label],
                           money := money u - 50 + d\<rparr>) \<and>
                 (if label = fst (last items) then d = bonus \<and> 100 \<le> d \<and> d \<le> 500 else d = 0))"
  proof (cases "money u < 50")
    case True
    then show ?thesis
      by (simp add: gacha_insufficient [OF assms(1,2) True] ensure_user_data_lookup [OF assms(2)])
  next
    case False
    from r have "\<exists>label. select_item r 0 items = Some label \<and> label \<in> fst ` set items"
      using select_item_in_range [of 0 r items] total_weight_100
      by (simp add: total_weight_def)
    then obtain label where s: "select_item r 0 items = Some label" and m: "label \<in> fst ` set items"
      by blast
    let ?d = "if sublist bonus_mark label then bonus else 0"
    have "map_of (snd (snd (gacha t now a r bonus lims st))) (str a) =
            Some (u\<lparr>command_usage := command_usage u + 1,
                    inventory := inventory u @ [label],
                    money := money u - 50 + ?d\<rparr>)"
      by (simp add: gacha_drawn [OF assms(1,2) False s] update_conv')
    moreover have "if label = fst (last items) then ?d = bonus \<and> 100 \<le> ?d \<and> ?d \<le> 500 else ?d = 0"
      using select_item_bonus(2) [OF s] b
      by (cases "sublist bonus_mark label") simp_all
    ultimately have "\<exists>label d.
                  label \<in> fst ` set items \<and>
                  map_of (snd (snd (gacha t now a r bonus lims st))) (str a) =
                    Some (u\<lparr>command_usage := command_usage u + 1,
                            inventory := inventory u @ [label],
                            money := money u - 50 + d\<rparr>) \<and>
                  (if label = fst (last items) then d = bonus \<and> 100 \<le> d \<and> d \<le> 500 else d = 0)"
      using m by blast
    with False show ?thesis by (simp only: if_False)
  qed
  have uniform: "\<forall>v\<in>{100..500}. \<forall>w\<in>{100..500}.
            card {ds. length ds = n \<and> set ds \<subseteq> {..<512} \<and> draw_bonus_money ds = Some (Inr v)} =
            card {ds. length ds = n \<and> set ds \<subseteq> {..<512} \<and> draw_bonus_money ds = Some (Inr w)}"
  proof (intro ballI)
    fix v w :: int
    assume "v \<in> {100..500}" and "w \<in> {100..500}"
    then have "100 \<le> v" "v \<le> 500" "100 \<le> w" "w \<le> 500" by simp_all
    from randint_uniform [OF this, of 512 n]
    show "card {ds. length ds = n \<and> set ds \<subseteq> {..<512} \<and> draw_bonus_money ds = Some (Inr v)} =
          card {ds. length ds = n \<and> set ds \<subseteq> {..<512} \<and> draw_bonus_money ds = Some (Inr w)}"
      by (simp add: draw_bonus_money_def)
  qed
  have every: "\<forall>v\<in>{100..500}. draw_bonus_money [nat (v - 100)] = Some (Inr v)"
    by (simp add: draw_bonus_money_def randint_single)
  from first uniform every show ?thesis by (intro conjI)
qed

theorem gacha_money_witness:
  "\<not> fst (is_rate_limited 1700000000 7 3 (map_of [])) \<and>
   ensure_user_data 5 (str 7) [(''7'', (new_user 0)\<lparr>money := 60\<rparr>)] =
     ([(''7'', (new_user 0)\<lparr>money := 60\<rparr>)], (new_user 0)\<lparr>money := 60\<rparr>) \<and>
   draw_r [100, 98] = Some (Inr 99) \<and>
   draw_bonus_money [511, 150] = Some (Inr 250) \<and>
   \<not> money ((new_user 0)\<lparr>money := 60\<rparr>) < 50 \<and>
   (\<exists>label d.
      label \<in> fst ` set items \<and>
      map_of (snd (snd (gacha 1700000000 5 7 99 250 (map_of []) [(''7'', (new_user 0)\<lparr>money := 60\<rparr>)])))
        (str 7) =
        Some ((new_user 0)\<lparr>money := 60\<rparr>
                \<lparr>command_usage := command_usage ((new_user 0)\<lparr>money := 60\<rparr>) + 1,
                 inventory := inventory ((new_user 0)\<lparr>money := 60\<rparr>) @ [label],
                 money := money ((new_user 0)\<lparr>money := 60\<rparr>) - 50 + d\<rparr>) \<and>
      (if label = fst (last items) then d = 250 \<and> 100 \<le> d \<and> d \<le> 500 else d = 0)) \<and>
   map_option money
     (map_of (snd (snd (gacha 1700000000 5 7 99 250 (map_of []) [(''7'', (new_user 0)\<lparr>money := 60\<rparr>)])))
        (str 7)) = Some 260 \<and>
   card {ds. length ds = 2 \<and> set ds \<subseteq> {..<512} \<and> draw_bonus_money ds = Some (Inr 100)} =
   card {ds. length ds = 2 \<and> set ds \<subseteq> {..<512} \<and> draw_bonus_money ds = Some (Inr 500)} \<and>
   draw_bonus_money [nat (500 - 100)] = Some (Inr 500)"
proof -
  have h1: "\<not> fst (is_rate_limited 1700000000 7 3 (map_of []))"
    by (rule admitted_3)
  have h2: "ensure_user_data 5 (str 7) [(''7'', (new_user 0)\<lparr>money := 60\<rparr>)] =
     ([(''7'', (new_user 0)\<lparr>money := 60\<rparr>)], (new_user 0)\<lparr>money := 60\<rparr>)"
    by (simp add: ensure_user_data_def str_7)
  have h3: "draw_r [100, 98] = Some (Inr 99)"
    by (simp add: draw_r_def randint_def total_weight_100)
  have h4: "draw_bonus_money [511, 150] = Some (Inr 250)"
    by (simp add: draw_bonus_money_def randint_def)
  have n: "\<not> money ((new_user 0)\<lparr>money := 60\<rparr>) < 50" by simp
  have s: "select_item 99 0 items = Some (fst (last items))"
    by (simp add: items_def)
  have b: "sublist bonus_mark (fst (last items))"
    using select_item_bonus(1) [OF s] by simp
  have v: "map_option money
     (map_of (snd (snd (gacha 1700000000 5 7 99 250 (map_of []) [(''7'', (new_user 0)\<lparr>money := 60\<rparr>)])))
        (str 7)) = Some 260"
    by (simp only: gacha_drawn [OF h1 h2 n s]) (simp add: b update_conv')
  note r = gacha_money [OF h1 h2 h3 h4, where n = 2]
  from r [THEN conjunct1] n
  have e: "\<exists>label d.
      label \<in> fst ` set items \<and>
      map_of (snd (snd (gacha 1700000000 5 7 99 250 (map_of []) [(''7'', (new_user 0)\<lparr>money := 60\<rparr>)])))
        (str 7) =
        Some ((new_user 0)\<lparr>money := 60\<rparr>
                \<lparr>command_usage := command_usage ((new_user 0)\<lparr>money := 60\<rparr>) + 1,
                 inventory := inventory ((new_user 0)\<lparr>money := 60\<rparr>) @ [label],
                 money := money ((new_user 0)\<lparr>money := 60\<rparr>) - 50 + d\<rparr>) \<and>
      (if label = fst (last items) then d = 250 \<and> 100 \<le> d \<and> d \<le> 500 else d = 0)"
    by (simp only: if_False)
  have m1: "(100::int) \<in> {100..500}" and m2: "(500::int) \<in> {100..500}" by simp_all
  note u = r [THEN conjunct2, THEN conjunct1, THEN bspec, OF m1, THEN bspec, OF m2]
  note w = r [THEN conjunct2, THEN conjunct2, THEN bspec, OF m2]
  show ?thesis
    by (intro conjI) (rule h1 h2 h3 h4 n e v u w)+
qed

text \<open>
  C10: the weights of the table add up to 100, and for every \<open>r\<close> from 1 to that total
  the selection loop stops at an entry of the table, so \<open>selected_item\<close> is bound; an
  admitted draw with enough money then replies with that item and appends exactly that one
  label to the inventory.
\<close>

theorem select_item_defined:
  assumes "1 \<le> r" and "r \<le> total_weight"
  shows "total_weight = 100 \<and>
         (\<exists>label. select_item r 0 items = Some label \<and> label \<in> fst ` set items \<and>
            (\<not> fst (is_rate_limited t a 3 lims) \<and>
             ensure_user_data now (str a) st = (st1, u) \<and> 50 \<le> money u \<longrightarrow>
               (\<exists>d m n. fst (gacha t now a r bonus lims st) = Inr (Drew label d m n)) \<and>
               map_option inventory (map_of (snd (snd (gacha t now a r bonus lims st))) (str a)) =
                 Some (inventory u @ [label])))"
proof -
  from assms obtain label where s: "select_item r 0 items = Some label"
    and m: "label \<in> fst ` set items"
    using select_item_in_range [of 0 r items] by (auto simp: total_weight_def)
  have "(\<exists>d m n. fst (gacha t now a r bonus lims st) = Inr (Drew label d m n)) \<and>
        map_option inventory (map_of (snd (snd (gacha t now a r bonus lims st))) (str a)) =
          Some (inventory u @ [label])"
    if "\<not> fst (is_rate_limited t a 3 lims)" and "ensure_user_data now (str a) st = (st1, u)"
      and "50 \<le> money u"
  proof -
    from that(3) have f: "\<not> money u < 50" by simp
    show ?thesis by (simp add: gacha_drawn [OF that(1,2) f s] update_conv')
  qed
  with s m total_weight_100 show ?thesis by blast
qed

theorem select_item_defined_witness:
  "(1::int) \<le> 100 \<and> 100 \<le> total_weight \<and> total_weight = 100 \<and>
   (\<exists>label. select_item 100 0 items = Some label \<and> label \<in> fst ` set items \<and>
      (\<not> fst (is_rate_limited 1700000000 7 3 (map_of [])) \<and>
       ensure_user_data 5 (str 7) [(''7'', (new_user 0)\<lparr>money := 60\<rparr>)] =
         ([(''7'', (new_user 0)\<lparr>money := 60\<rparr>)], (new_user 0)\<lparr>money := 60\<rparr>) \<and>
       50 \<le> money ((new_user 0)\<lparr>money := 60\<rparr>) \<longrightarrow>
         (\<exists>d m n. fst (gacha 1700000000 5 7 100 250 (map_of []) [(''7'', (new_user 0)\<lparr>money := 60\<rparr>)]) =
                   Inr (Drew label d m n)) \<and>
         map_option inventory
           (map_of (snd (snd (gacha 1700000000 5 7 100 250 (map_of []) [(''7'', (new_user 0)\<lparr>money := 60\<rparr>)])))
              (str 7)) = Some (inventory ((new_user 0)\<lparr>money := 60\<rparr>) @ [label]))) \<and>
   \<not> fst (is_rate_limited 1700000000 7 3 (map_of [])) \<and>
   ensure_user_data 5 (str 7) [(''7'', (new_user 0)\<lparr>money := 60\<rparr>)] =
     ([(''7'', (new_user 0)\<lparr>money := 60\<rparr>)], (new_user 0)\<lparr>money := 60\<rparr>) \<and>
   50 \<le> money ((new_user 0)\<lparr>money := 60\<rparr>) \<and>
   select_item 100 0 items = Some (fst (last items)) \<and>
   select_item 1 0 items = Some (fst (hd items))"
proof -
  have h1: "(1::int) \<le> 100" by simp
  have h2: "100 \<le> total_weight" by (simp add: total_weight_100)
  have g1: "\<not> fst (is_rate_limited 1700000000 7 3 (map_of []))"
    by (rule admitted_3)
  have g2: "ensure_user_data 5 (str 7) [(''7'', (new_user 0)\<lparr>money := 60\<rparr>)] =
     ([(''7'', (new_user 0)\<lparr>money := 60\<rparr>)], (new_user 0)\<lparr>money := 60\<rparr>)"
    by (simp add: ensure_user_data_def str_7)
  have g3: "50 \<le> money ((new_user 0)\<lparr>money := 60\<rparr>)" by simp
  have e: "select_item 100 0 items = Some (fst (last items))"
    "select_item 1 0 items = Some (fst (hd items))"
    by (simp_all add: items_def)
  note r = select_item_defined [OF h1 h2, where t = 1700000000 and a = 7 and lims = "map_of []"
        and now = 5 and st = "[(''7'', (new_user 0)\<lparr>money := 60\<rparr>)]"
        and ?st1.0 = "[(''7'', (new_user 0)\<lparr>money := 60\<rparr>)]"
        and u = "(new_user 0)\<lparr>money := 60\<rparr>" and bonus = 250]
  show ?thesis
    by (intro conjI) (rule h1 h2 r [THEN conjunct1] r [THEN conjunct2] g1 g2 g3 e)+
qed

section \<open>Presence: online time\<close>

lemma on_presence_update_offline_eq:
  assumes "ensure_user_data now (str i) st = (st1, u)" and "after \<noteq> online"
  shows "on_presence_update now online after i st =
     (case last_online u of
        Some (Aware t) \<Rightarrow>
          AList.update (str i)
            (u\<lparr>total_online := total_online u + int_total_seconds (now - t),
               last_online := None\<rparr>) st1
      | _ \<Rightarrow> st1)"
  using assms
  by (simp add: on_presence_update_def Let_def split: option.splits stamp.splits)

lemma on_presence_update_offline_twice:
  assumes "a1 \<noteq> online" and "a2 \<noteq> online"
  shows "on_presence_update now2 online a2 i (on_presence_update now online a1 i st) =
         on_presence_update now online a1 i st"
proof -
  obtain st1 u where e: "ensure_user_data now (str i) st = (st1, u)"
    by (cases "ensure_user_data now (str i) st")
  let ?st' = "on_presence_update now online a1 i st"
  have "\<exists>u'. map_of ?st' (str i) = Some u' \<and> (\<forall>t. last_online u' \<noteq> Some (Aware t)) \<and>
          (\<forall>t. last_online u' = Some (Aware t) \<longrightarrow> False)"
  proof (cases "\<exists>t. last_online u = Some (Aware t)")
    case True
    then obtain t where t: "last_online u = Some (Aware t)" by blast
    show ?thesis
      by (simp add: on_presence_update_offline_eq [OF e assms(1)] t update_conv')
  next
    case False
    then have "?st' = st1"
      by (auto simp: on_presence_update_offline_eq [OF e assms(1)] split: option.splits stamp.splits)
    with False ensure_user_data_lookup [OF e] show ?thesis by auto
  qed
  then obtain u' where m: "map_of ?st' (str i) = Some u'"
    and n: "\<forall>t. last_online u' \<noteq> Some (Aware t)" by blast
  have e2: "ensure_user_data now2 (str i) ?st' = (?st', u')"
    by (rule ensure_user_data_present [OF m])
  show ?thesis
    using n by (auto simp: on_presence_update_offline_eq [OF e2 assms(2)] split: option.splits stamp.splits)
qed

text \<open>
  C2, as stated, says that the seconds added on going offline are floored and never
  negative, and that the transition clears \<open>last_online\<close>. No clamp exists: with
  \<open>last_online\<close> five seconds after the current time, the total drops from 100 to 95.
  The seconds are those of a float: after 17179869184.999999 seconds online, 17179869185
  are added. And a \<open>last_online\<close> without UTC offset is not cleared, as the subtraction
  raises \<open>TypeError\<close>, which the outer handler logs.
\<close>

theorem on_presence_update_skew_counterexample:
  "map_option total_online
     (map_of [(''7'', (new_user 0)\<lparr>total_online := 100, last_online := Some (Aware 10000000)\<rparr>)] ''7'')
     = Some 100 \<and>
   map_option total_online
     (map_of (on_presence_update 5000000 online offline 7
        [(''7'', (new_user 0)\<lparr>total_online := 100, last_online := Some (Aware 10000000)\<rparr>)]) ''7'')
     = Some 95 \<and>
   map_option total_online
     (map_of (on_presence_update 17179869184999999 online offline 7
        [(''7'', (new_user 0)\<lparr>last_online := Some (Aware 0)\<rparr>)]) ''7'')
     = Some 17179869185 \<and>
   \<lfloor>real_of_int (17179869184999999 - 0) / 1000000\<rfloor> = 17179869184 \<and>
   map_option last_online
     (map_of (on_presence_update 5000000 online offline 7
        [(''7'', (new_user 0)\<lparr>last_online := Some (Naive 1000000)\<rparr>)]) ''7'')
     = Some (Some (Naive 1000000))"
proof -
  have a: "map_option total_online
     (map_of [(''7'', (new_user 0)\<lparr>total_online := 100, last_online := Some (Aware 10000000)\<rparr>)] ''7'')
     = Some 100"
    by simp
  have b: "map_option total_online
     (map_of (on_presence_update 5000000 online offline 7
        [(''7'', (new_user 0)\<lparr>total_online := 100, last_online := Some (Aware 10000000)\<rparr>)]) ''7'')
     = Some 95"
    by (simp add: on_presence_update_def ensure_user_data_def str_7 new_user_def
          int_total_seconds_minus_5 Let_def)
  have c: "map_option total_online
     (map_of (on_presence_update 17179869184999999 online offline 7
        [(''7'', (new_user 0)\<lparr>last_online := Some (Aware 0)\<rparr>)]) ''7'')
     = Some 17179869185"
    by (simp add: on_presence_update_def ensure_user_data_def str_7 new_user_def
          int_total_seconds_rounds_up Let_def)
  have d: "\<lfloor>real_of_int (17179869184999999 - 0) / 1000000\<rfloor> = 17179869184"
    by (simp add: floor_eq_iff)
  have e: "map_option last_online
     (map_of (on_presence_update 5000000 online offline 7
        [(''7'', (new_user 0)\<lparr>last_online := Some (Naive 1000000)\<rparr>)]) ''7'')
     = Some (Some (Naive 1000000))"
    by (simp add: on_presence_update_def ensure_user_data_def str_7 new_user_def Let_def)
  show ?thesis
    by (intro conjI) (rule a b c d e)+
qed

text \<open>
  C2, amended: for every user record and every change from online to another status: when
  \<open>last_online\<close> is a timestamp with UTC offset, the seconds of \<open>now - last_online\<close>, as
  the float nearest to them truncated towards zero, are added to \<open>total_online\<close> and
  \<open>last_online\<close> is cleared; otherwise (\<open>last_online\<close> null, empty, unparseable or
  without offset) the record is left as it is. When \<open>last_online\<close> is not after \<open>now\<close>
  the amount added is not negative, so \<open>total_online\<close> does not decrease, and for less
  than \<open>2 ^ 34\<close> seconds it is the floor of the elapsed seconds. A second offline event
  with no online event in between changes nothing.
\<close>

theorem on_presence_update_offline:
  assumes "ensure_user_data now (str i) st = (st1, u)"
      and "after \<noteq> online"
  shows "map_of (on_presence_update now online after i st) (str i) =
           Some (case last_online u of
                   Some (Aware t) \<Rightarrow>
                     u\<lparr>total_online := total_online u + int_total_seconds (now - t),
                       last_online := None\<rparr>
                 | _ \<Rightarrow> u) \<and>
         (\<forall>t. t \<le> now \<longrightarrow> 0 \<le> int_total_seconds (now - t)) \<and>
         (\<forall>t. t \<le> now \<and> now - t < 2 ^ 34 * 1000000 \<longrightarrow>
            int_total_seconds (now - t) = \<lfloor>real_of_int (now - t) / 1000000\<rfloor>) \<and>
         (after2 \<noteq> online \<longrightarrow>
            on_presence_update now2 online after2 i (on_presence_update now online after i st) =
            on_presence_update now online after i st)"
proof -
  note l = ensure_user_data_lookup [OF assms(1)]
  have a: "map_of (on_presence_update now online after i st) (str i) =
           Some (case last_online u of
                   Some (Aware t) \<Rightarrow>
                     u\<lparr>total_online := total_online u + int_total_seconds (now - t),
                       last_online := None\<rparr>
                 | _ \<Rightarrow> u)"
    by (simp add: on_presence_update_offline_eq [OF assms] l update_conv'
          split: option.splits stamp.splits)
  have b: "\<forall>t. t \<le> now \<longrightarrow> 0 \<le> int_total_seconds (now - t)"
    by (simp add: int_total_seconds_nonneg)
  have c: "\<forall>t. t \<le> now \<and> now - t < 2 ^ 34 * 1000000 \<longrightarrow>
            int_total_seconds (now - t) = \<lfloor>real_of_int (now - t) / 1000000\<rfloor>"
  proof (intro allI impI)
    fix t assume t: "t \<le> now \<and> now - t < 2 ^ 34 * 1000000"
    then have "0 \<le> now - t" and "now - t < 17179869184000000" by simp_all
    then have "int_total_seconds (now - t) = (now - t) div 1000000"
      by (rule int_total_seconds_floor)
    also have "\<dots> = \<lfloor>real_of_int (now - t) / real_of_int 1000000\<rfloor>"
      by (rule floor_divide_of_int_eq [symmetric])
    finally show "int_total_seconds (now - t) = \<lfloor>real_of_int (now - t) / 1000000\<rfloor>"
      by simp
  qed
  have d: "after2 \<noteq> online \<longrightarrow>
            on_presence_update now2 online after2 i (on_presence_update now online after i st) =
            on_presence_update now online after i st"
    using on_presence_update_offline_twice [OF assms(2)] by blast
  from a b c d show ?thesis by (intro conjI)
qed

theorem on_presence_update_offline_witness:
  "ensure_user_data 126000000 (str 7) [(''7'', (new_user 0)\<lparr>last_online := Some (Aware 1000000)\<rparr>)] =
     ([(''7'', (new_user 0)\<lparr>last_online := Some (Aware 1000000)\<rparr>)],
      (new_user 0)\<lparr>last_online := Some (Aware 1000000)\<rparr>) \<and>
   offline \<noteq> online \<and>
   (1000000::int) \<le> 126000000 \<and> (126000000::int) - 1000000 < 2 ^ 34 * 1000000 \<and>
   map_option total_online
     (map_of (on_presence_update 126000000 online offline 7
        [(''7'', (new_user 0)\<lparr>last_online := Some (Aware 1000000)\<rparr>)]) (str 7)) = Some 125 \<and>
   map_option last_online
     (map_of (on_presence_update 126000000 online offline 7
        [(''7'', (new_user 0)\<lparr>last_online := Some (Aware 1000000)\<rparr>)]) (str 7)) = Some None \<and>
   int_total_seconds (126000000 - 1000000) = \<lfloor>real_of_int (126000000 - 1000000) / 1000000\<rfloor> \<and>
   0 \<le> int_total_seconds (126000000 - 1000000) \<and>
   on_presence_update 130000000 online offline 7
     (on_presence_update 126000000 online offline 7
        [(''7'', (new_user 0)\<lparr>last_online := Some (Aware 1000000)\<rparr>)]) =
   on_presence_update 126000000 online offline 7
        [(''7'', (new_user 0)\<lparr>last_online := Some (Aware 1000000)\<rparr>)]"
proof -
  have h1: "ensure_user_data 126000000 (str 7)
       [(''7'', (new_user 0)\<lparr>last_online := Some (Aware 1000000)\<rparr>)] =
     ([(''7'', (new_user 0)\<lparr>last_online := Some (Aware 1000000)\<rparr>)],
      (new_user 0)\<lparr>last_online := Some (Aware 1000000)\<rparr>)"
    by (simp add: ensure_user_data_def str_7)
  have h2: "offline \<noteq> online" by simp
  have h3: "(1000000::int) \<le> 126000000" by simp
  have h4: "(126000000::int) - 1000000 < 2 ^ 34 * 1000000" by simp
  note r = on_presence_update_offline [OF h1 h2, where ?after2.0 = offline and ?now2.0 = 130000000]
  have a: "map_option total_online
     (map_of (on_presence_update 126000000 online offline 7
        [(''7'', (new_user 0)\<lparr>last_online := Some (Aware 1000000)\<rparr>)]) (str 7)) = Some 125"
    by (simp only: r [THEN conjunct1]) (simp add: new_user_def int_total_seconds_125)
  have b: "map_option last_online
     (map_of (on_presence_update 126000000 online offline 7
        [(''7'', (new_user 0)\<lparr>last_online := Some (Aware 1000000)\<rparr>)]) (str 7)) = Some None"
    by (simp only: r [THEN conjunct1]) (simp add: new_user_def)
  note c = r [THEN conjunct2, THEN conjunct2, THEN conjunct1, THEN spec, THEN mp, OF conjI [OF h3 h4]]
  note d = r [THEN conjunct2, THEN conjunct1, THEN spec, THEN mp, OF h3]
  note e = r [THEN conjunct2, THEN conjunct2, THEN conjunct2, THEN mp, OF h2]
  show ?thesis
    by (intro conjI) (rule h1 h2 h3 h4 a b c d e)+
qed

section \<open>Profile: the read path\<close>

text \<open>
  C3, as stated, says that showing the profile leaves every field of the record unchanged.
  \<open>check_profile\<close> counts the command: \<open>command_usage\<close> goes from 0 to 1. And a
  \<open>last_online\<close> without UTC offset makes the subtraction raise \<open>TypeError\<close>, which
  \<open>check_profile\<close> does not catch: no time is reported.
\<close>

theorem check_profile_mutates_counterexample:
  "map_option command_usage (map_of [(''7'', new_user 0)] ''7'') = Some 0 \<and>
   map_option command_usage
     (map_of (snd (snd (check_profile 1700000000 5 7 None (map_of []) [(''7'', new_user 0)]))) ''7'')
     = Some 1 \<and>
   fst (check_profile 1700000000 5 7 None (map_of [])
          [(''7'', (new_user 0)\<lparr>last_online := Some (Naive 1000000)\<rparr>)]) = Inl TypeError"
  by (simp add: check_profile_def is_rate_limited_def last_command_def fsub_now
        ensure_user_data_def online_seconds_def str_7 new_user_def Let_def)

text \<open>
  C3, amended: for every user record, a call that the rate limiter rejects replies with the
  wait message and leaves the store as it is. For a call that it admits, the record
  afterwards is the record before with \<open>command_usage\<close> one higher and every other field
  unchanged, so the session in progress is not folded into \<open>total_online\<close>; when
  \<open>last_online\<close> is a timestamp without UTC offset the call raises \<open>TypeError\<close>;
  otherwise the time shown is the hours and minutes of \<open>total_online\<close> plus the seconds
  since \<open>last_online\<close> (the float nearest to them, truncated towards zero) when
  \<open>last_online\<close> is a timestamp with offset, plus 0 when it is null, empty or
  unparseable.
\<close>

theorem check_profile_report:
  assumes "ensure_user_data now (str (case member of Some x \<Rightarrow> x | None \<Rightarrow> a)) st = (st1, u)"
  shows "(fst (is_rate_limited t a 3 lims) \<longrightarrow>
            check_profile t now a member lims st =
              (Inr Wait, snd (is_rate_limited t a 3 lims), st)) \<and>
         (\<not> fst (is_rate_limited t a 3 lims) \<longrightarrow>
            map_of (snd (snd (check_profile t now a member lims st)))
              (str (case member of Some x \<Rightarrow> x | None \<Rightarrow> a)) =
              Some (u\<lparr>command_usage := command_usage u + 1\<rparr>) \<and>
            fst (check_profile t now a member lims st) =
              (case last_online u of
                 Some (Naive k) \<Rightarrow> Inl TypeError
               | _ \<Rightarrow>
                   (let total = total_online u +
                          (case last_online u of
                             Some (Aware s) \<Rightarrow> int_total_seconds (now - s)
                           | _ \<Rightarrow> 0)
                    in Inr (Profile (item u) (money u) (level u) (total div 3600)
                              ((total mod 3600) div 60) (command_usage u + 1)
                              (take 5 (inventory u)) (length (inventory u) - 5)))))"
proof -
  have w: "check_profile t now a member lims st =
             (Inr Wait, snd (is_rate_limited t a 3 lims), st)"
    if "fst (is_rate_limited t a 3 lims)"
    using that by (simp add: check_profile_def split_beta)
  have r: "map_of (snd (snd (check_profile t now a member lims st)))
              (str (case member of Some x \<Rightarrow> x | None \<Rightarrow> a)) =
              Some (u\<lparr>command_usage := command_usage u + 1\<rparr>)"
    if "\<not> fst (is_rate_limited t a 3 lims)"
    using that assms
    by (auto simp: check_profile_def online_seconds_def Let_def split_beta update_conv'
             split: option.splits stamp.splits sum.splits error.splits)
  have p: "fst (check_profile t now a member lims st) =
              (case last_online u of
                 Some (Naive k) \<Rightarrow> Inl TypeError
               | _ \<Rightarrow>
                   (let total = total_online u +
                          (case last_online u of
                             Some (Aware s) \<Rightarrow> int_total_seconds (now - s)
                           | _ \<Rightarrow> 0)
                    in Inr (Profile (item u) (money u) (level u) (total div 3600)
                              ((total mod 3600) div 60) (command_usage u + 1)
                              (take 5 (inventory u)) (length (inventory u) - 5))))"
    if "\<not> fst (is_rate_limited t a 3 lims)"
    using that assms
    by (auto simp: check_profile_def online_seconds_def Let_def split_beta
             split: option.splits stamp.splits)
  from w r p show ?thesis by blast
qed

theorem check_profile_report_witness:
  "ensure_user_data 126000000 (str (case None of Some x \<Rightarrow> x | None \<Rightarrow> 7))
     [(''7'', (new_user 0)\<lparr>total_online := 3600, last_online := Some (Aware 1000000)\<rparr>)] =
     ([(''7'', (new_user 0)\<lparr>total_online := 3600, last_online := Some (Aware 1000000)\<rparr>)],
      (new_user 0)\<lparr>total_online := 3600, last_online := Some (Aware 1000000)\<rparr>) \<and>
   \<not> fst (is_rate_limited 1700000000 7 3 (map_of [])) \<and>
   map_of (snd (snd (check_profile 1700000000 126000000 7 None (map_of [])
       [(''7'', (new_user 0)\<lparr>total_online := 3600, last_online := Some (Aware 1000000)\<rparr>)]))) (str 7) =
     Some ((new_user 0)\<lparr>total_online := 3600, last_online := Some (Aware 1000000),
                          command_usage := 1\<rparr>) \<and>
   fst (check_profile 1700000000 126000000 7 None (map_of [])
       [(''7'', (new_user 0)\<lparr>total_online := 3600, last_online := Some (Aware 1000000)\<rparr>)]) =
     Inr (Profile [] 0 1 1 2 1 [] 0) \<and>
   fst (is_rate_limited 1700000001 7 3 (map_of [(7, 1700000000)])) \<and>
   check_profile 1700000001 126000000 7 None (map_of [(7, 1700000000)])
       [(''7'', (new_user 0)\<lparr>total_online := 3600, last_online := Some (Aware 1000000)\<rparr>)] =
     (Inr Wait, snd (is_rate_limited 1700000001 7 3 (map_of [(7, 1700000000)])),
      [(''7'', (new_user 0)\<lparr>total_online := 3600, last_online := Some (Aware 1000000)\<rparr>)])"
proof -
  have h1: "ensure_user_data 126000000 (str (case None of Some x \<Rightarrow> x | None \<Rightarrow> 7))
     [(''7'', (new_user 0)\<lparr>total_online := 3600, last_online := Some (Aware 1000000)\<rparr>)] =
     ([(''7'', (new_user 0)\<lparr>total_online := 3600, last_online := Some (Aware 1000000)\<rparr>)],
      (new_user 0)\<lparr>total_online := 3600, last_online := Some (Aware 1000000)\<rparr>)"
    by (simp add: ensure_user_data_def str_7)
  have h2: "\<not> fst (is_rate_limited 1700000000 7 3 (map_of []))"
    by (rule admitted_3)
  note r = check_profile_report [OF h1, where t = 1700000000 and lims = "map_of []",
      THEN conjunct2, THEN mp, OF h2]
  have a: "map_of (snd (snd (check_profile 1700000000 126000000 7 None (map_of [])
       [(''7'', (new_user 0)\<lparr>total_online := 3600, last_online := Some (Aware 1000000)\<rparr>)]))) (str 7) =
     Some ((new_user 0)\<lparr>total_online := 3600, last_online := Some (Aware 1000000),
                          command_usage := 1\<rparr>)"
    using r [THEN conjunct1] by (simp add: new_user_def)
  have b: "fst (check_profile 1700000000 126000000 7 None (map_of [])
       [(''7'', (new_user 0)\<lparr>total_online := 3600, last_online := Some (Aware 1000000)\<rparr>)]) =
     Inr (Profile [] 0 1 1 2 1 [] 0)"
    by (simp only: r [THEN conjunct2]) (simp add: new_user_def int_total_seconds_125)
  have d1: "is_double 1700000001" using is_double_of_int [of 1700000001] by simp
  have l: "last_command (map_of [(7, 1700000000)]) 7 = 1700000000"
    by (simp add: last_command_def)
  have "is_double (1700000001 - 1700000000)" using is_double_of_int [of 1] by simp
  then have "fsub 1700000001 (last_command (map_of [(7, 1700000000)]) 7) =
             1700000001 - last_command (map_of [(7, 1700000000)]) 7"
    unfolding l by (rule fsub_exact)
  note q = is_rate_limited_exact [OF this, of 3, unfolded l]
  have h3: "fst (is_rate_limited 1700000001 7 3 (map_of [(7, 1700000000)]))"
    unfolding q by simp
  note c = check_profile_report [OF h1, where t = 1700000001 and lims = "map_of [(7, 1700000000)]",
      THEN conjunct1, THEN mp, OF h3]
  show ?thesis
    by (intro conjI) (rule h1 h2 a b h3 c)+
qed

section \<open>Leaderboard: ranking\<close>

lemma sorted_reverse_desc: "sorted_wrt (\<lambda>x y. key y \<le> key x) (sorted_reverse key xs)"
proof -
  have "sorted (map key (sort_key key (rev xs)))" by simp
  then have "sorted_wrt (\<lambda>x y. key x \<le> key y) (sort_key key (rev xs))"
    by (simp add: sorted_map)
  then show ?thesis by (simp add: sorted_reverse_def sorted_wrt_rev)
qed

lemma mset_sorted_reverse: "mset (sorted_reverse key xs) = mset xs"
  by (simp add: sorted_reverse_def)

lemma sorted_reverse_stable:
  "filter (\<lambda>x. key x = k) (sorted_reverse key xs) = filter (\<lambda>x. key x = k) xs"
proof -
  have "filter (\<lambda>x. key x = k) (sorted_reverse key xs) =
        rev (filter (\<lambda>x. key x = k) (sort_key key (rev xs)))"
    by (simp add: sorted_reverse_def rev_filter)
  also have "\<dots> = rev (filter (\<lambda>x. key x = k) (rev xs))"
    by (simp only: sort_key_stable)
  also have "\<dots> = filter (\<lambda>x. key x = k) xs"
    by (simp add: rev_filter)
  finally show ?thesis .
qed

lemma fetched_uids:
  "map (fst \<circ> snd)
     (map (\<lambda>(i, uid, data). (i + 1, uid, g data))
        (filter (\<lambda>(i, uid, data). fetch uid) (enumerate n xs))) =
   filter fetch (map fst xs)"
  by (induction xs arbitrary: n) auto

lemma fetched_fields:
  assumes "(rank, uid, v) \<in> set (map (\<lambda>(i, uid, data). (i + 1, uid, g data))
             (filter (\<lambda>(i, uid, data). fetch uid) (enumerate 0 xs)))"
  shows "1 \<le> rank \<and> rank \<le> length xs \<and> fetch uid \<and>
         (\<exists>data. xs ! (rank - 1) = (uid, data) \<and> v = g data)"
proof -
  from assms obtain i data where m: "(i, uid, data) \<in> set (enumerate 0 xs)"
    and f: "fetch uid" and r: "rank = i + 1" and v: "v = g data"
    by auto
  from m have "i < length xs" and "xs ! i = (uid, data)"
    by (simp_all add: in_set_enumerate_eq)
  with f r v show ?thesis by simp
qed

text \<open>
  C8, as stated, says that the leaderboard produces the descending sort of all records, cut
  at a limit. The command has no limit parameter, and it shows only the entries whose user
  can be fetched: with two users of whom the richer cannot be fetched, the board holds the
  other one alone, under rank 2.
\<close>

theorem leaderboard_unfetched_counterexample:
  "fst (leaderboard 1700000000 42 ''money'' ((=) ''1'') (map_of [])
          [(''1'', (new_user 0)\<lparr>money := 50\<rparr>), (''2'', (new_user 0)\<lparr>money := 200\<rparr>)]) =
     Board ''money'' [(2, ''1'', 50)] \<and>
   map fst (top_users ''money''
          [(''1'', (new_user 0)\<lparr>money := 50\<rparr>), (''2'', (new_user 0)\<lparr>money := 200\<rparr>)]) =
     [''2'', ''1'']"
proof -
  have "fst (leaderboard 1700000000 42 ''money'' ((=) ''1'') (map_of [])
          [(''1'', (new_user 0)\<lparr>money := 50\<rparr>), (''2'', (new_user 0)\<lparr>money := 200\<rparr>)]) =
     Board ''money'' [(2, ''1'', 50)]"
    using admitted_10 [of 42]
    by (simp add: leaderboard_def split_beta Let_def top_users_def sorted_reverse_def
          fallback_def valid_categories_def metric_def shown_def new_user_def)
  moreover have "map fst (top_users ''money''
          [(''1'', (new_user 0)\<lparr>money := 50\<rparr>), (''2'', (new_user 0)\<lparr>money := 200\<rparr>)]) =
     [''2'', ''1'']"
    by (simp add: top_users_def sorted_reverse_def fallback_def valid_categories_def metric_def
          new_user_def)
  ultimately show ?thesis by (rule conjI)
qed

text \<open>
  C8, amended: for every store and category, the ranking is sorted by the metric in
  descending order, holds exactly the records of the store, and keeps records of equal
  metric in their order in the store; a category other than money, level and online counts
  as money; the store is returned as it was. The cut is fixed at 10, with no limit
  parameter: an admitted call shows, in the order of the ranking, those of its first 10
  entries whose user can be fetched, each under its rank in the ranking and with its
  metric (whole hours for the online board).
\<close>

theorem leaderboard_ranking:
  "sorted_wrt (\<lambda>x y. metric (fallback c) (snd y) \<le> metric (fallback c) (snd x)) (top_users c st) \<and>
   mset (top_users c st) = mset st \<and>
   filter (\<lambda>x. metric (fallback c) (snd x) = k) (top_users c st) =
     filter (\<lambda>x. metric (fallback c) (snd x) = k) st \<and>
   fallback c = (if c = ''money'' \<or> c = ''level'' \<or> c = ''online'' then c else ''money'') \<and>
   metric ''money'' d = money d \<and> metric ''level'' d = level d \<and>
   metric ''online'' d = total_online d \<and>
   shown ''money'' d = money d \<and> shown ''level'' d = level d \<and>
   shown ''online'' d = total_online d div 3600 \<and>
   snd (snd (leaderboard t a c fetch lims st)) = st \<and>
   (\<not> fst (is_rate_limited t a 10 lims) \<longrightarrow>
      (\<exists>fields. fst (leaderboard t a c fetch lims st) = Board (fallback c) fields \<and>
         length fields \<le> 10 \<and>
         map (fst \<circ> snd) fields = filter fetch (map fst (take 10 (top_users c st))) \<and>
         (\<forall>(rank, uid, v) \<in> set fields.
            1 \<le> rank \<and> rank \<le> 10 \<and> rank \<le> length st \<and> fetch uid \<and>
            (\<exists>data. top_users c st ! (rank - 1) = (uid, data) \<and>
                    v = shown (fallback c) data))))"
proof -
  have a: "sorted_wrt (\<lambda>x y. metric (fallback c) (snd y) \<le> metric (fallback c) (snd x)) (top_users c st)"
    unfolding top_users_def by (rule sorted_reverse_desc)
  have b: "mset (top_users c st) = mset st"
    by (simp add: top_users_def mset_sorted_reverse)
  have s: "filter (\<lambda>x. metric (fallback c) (snd x) = k) (top_users c st) =
     filter (\<lambda>x. metric (fallback c) (snd x) = k) st"
    unfolding top_users_def by (rule sorted_reverse_stable)
  have f: "fallback c = (if c = ''money'' \<or> c = ''level'' \<or> c = ''online'' then c else ''money'')"
    by (simp add: fallback_def valid_categories_def)
  have m: "metric ''money'' d = money d \<and> metric ''level'' d = level d \<and>
           metric ''online'' d = total_online d"
    by (simp add: metric_def)
  have h: "shown ''money'' d = money d \<and> shown ''level'' d = level d \<and>
           shown ''online'' d = total_online d div 3600"
    by (simp add: shown_def)
  have r: "snd (snd (leaderboard t a c fetch lims st)) = st"
    by (simp add: leaderboard_def split_beta Let_def)
  have len: "length (top_users c st) = length st"
    using b by (rule mset_eq_length)
  have l: "\<exists>fields. fst (leaderboard t a c fetch lims st) = Board (fallback c) fields \<and>
         length fields \<le> 10 \<and>
         map (fst \<circ> snd) fields = filter fetch (map fst (take 10 (top_users c st))) \<and>
         (\<forall>(rank, uid, v) \<in> set fields.
            1 \<le> rank \<and> rank \<le> 10 \<and> rank \<le> length st \<and> fetch uid \<and>
            (\<exists>data. top_users c st ! (rank - 1) = (uid, data) \<and>
                    v = shown (fallback c) data))"
    if "\<not> fst (is_rate_limited t a 10 lims)"
  proof -
    let ?fields = "map (\<lambda>(i, uid, data). (i + 1, uid, shown (fallback c) data))
                    (filter (\<lambda>(i, uid, data). fetch uid)
                       (enumerate 0 (take 10 (top_users c st))))"
    have "fst (leaderboard t a c fetch lims st) = Board (fallback c) ?fields"
      using that by (simp add: leaderboard_def split_beta Let_def)
    moreover have "length ?fields \<le> length (enumerate 0 (take 10 (top_users c st)))"
      unfolding length_map by (rule length_filter_le)
    then have "length ?fields \<le> 10" by simp
    moreover have "map (fst \<circ> snd) ?fields = filter fetch (map fst (take 10 (top_users c st)))"
      by (rule fetched_uids)
    moreover have "\<forall>(rank, uid, v) \<in> set ?fields.
            1 \<le> rank \<and> rank \<le> 10 \<and> rank \<le> length st \<and> fetch uid \<and>
            (\<exists>data. top_users c st ! (rank - 1) = (uid, data) \<and>
                    v = shown (fallback c) data)"
    proof (intro ballI, clarify)
      fix rank uid v
      assume "(rank, uid, v) \<in> set ?fields"
      from fetched_fields [OF this]
      have q: "1 \<le> rank" "rank \<le> length (take 10 (top_users c st))" "fetch uid"
        "\<exists>data. take 10 (top_users c st) ! (rank - 1) = (uid, data) \<and> v = shown (fallback c) data"
        by simp_all
      from q(2) have "rank \<le> 10" by simp
      with q(1) have "rank - 1 < 10" by arith
      then have "take 10 (top_users c st) ! (rank - 1) = top_users c st ! (rank - 1)"
        by (rule nth_take)
      with q len show "1 \<le> rank \<and> rank \<le> 10 \<and> rank \<le> length st \<and> fetch uid \<and>
            (\<exists>data. top_users c st ! (rank - 1) = (uid, data) \<and> v = shown (fallback c) data)"
        by simp
    qed
    ultimately show ?thesis by blast
  qed
  from a b s f m h r l show ?thesis by blast
qed

theorem leaderboard_ranking_witness:
  "\<not> fst (is_rate_limited 1700000000 42 10 (map_of [])) \<and>
   map fst (top_users ''money''
      [(''1'', (new_user 0)\<lparr>money := 50\<rparr>), (''2'', (new_user 0)\<lparr>money := 200\<rparr>),
       (''3'', (new_user 0)\<lparr>money := 200\<rparr>)]) = [''2'', ''3'', ''1''] \<and>
   mset (top_users ''money''
      [(''1'', (new_user 0)\<lparr>money := 50\<rparr>), (''2'', (new_user 0)\<lparr>money := 200\<rparr>),
       (''3'', (new_user 0)\<lparr>money := 200\<rparr>)]) =
   mset [(''1'', (new_user 0)\<lparr>money := 50\<rparr>), (''2'', (new_user 0)\<lparr>money := 200\<rparr>),
         (''3'', (new_user 0)\<lparr>money := 200\<rparr>)] \<and>
   (\<exists>fields. fst (leaderboard 1700000000 42 ''money'' (\<lambda>uid. True) (map_of [])
        [(''1'', (new_user 0)\<lparr>money := 50\<rparr>), (''2'', (new_user 0)\<lparr>money := 200\<rparr>),
         (''3'', (new_user 0)\<lparr>money := 200\<rparr>)]) = Board ''money'' fields \<and>
      length fields \<le> 10 \<and> map (fst \<circ> snd) fields = [''2'', ''3'', ''1''])"
proof -
  have h: "\<not> fst (is_rate_limited 1700000000 42 10 (map_of []))"
    by (rule admitted_10)
  have v: "map fst (top_users ''money''
      [(''1'', (new_user 0)\<lparr>money := 50\<rparr>), (''2'', (new_user 0)\<lparr>money := 200\<rparr>),
       (''3'', (new_user 0)\<lparr>money := 200\<rparr>)]) = [''2'', ''3'', ''1'']"
    by (simp add: top_users_def sorted_reverse_def fallback_def valid_categories_def metric_def
          new_user_def)
  have f: "fallback ''money'' = ''money''"
    by (simp add: fallback_def valid_categories_def)
  note r = leaderboard_ranking [of "''money''"
        "[(''1'', (new_user 0)\<lparr>money := 50\<rparr>), (''2'', (new_user 0)\<lparr>money := 200\<rparr>),
          (''3'', (new_user 0)\<lparr>money := 200\<rparr>)]" 0 "new_user 0" 1700000000 42 "\<lambda>uid. True" "map_of []"]
  note b = r [THEN conjunct2, THEN conjunct1]
  note l = r [THEN conjunct2, THEN conjunct2, THEN conjunct2, THEN conjunct2, THEN conjunct2,
      THEN conjunct2, THEN conjunct2, THEN conjunct2, THEN conjunct2, THEN conjunct2,
      THEN conjunct2, THEN mp, OF h]
  from l obtain fields where
    q: "fst (leaderboard 1700000000 42 ''money'' (\<lambda>uid. True) (map_of [])
        [(''1'', (new_user 0)\<lparr>money := 50\<rparr>), (''2'', (new_user 0)\<lparr>money := 200\<rparr>),
         (''3'', (new_user 0)\<lparr>money := 200\<rparr>)]) = Board (fallback ''money'') fields"
      "length fields \<le> 10"
      "map (fst \<circ> snd) fields = filter (\<lambda>uid. True) (map fst (take 10 (top_users ''money''
        [(''1'', (new_user 0)\<lparr>money := 50\<rparr>), (''2'', (new_user 0)\<lparr>money := 200\<rparr>),
         (''3'', (new_user 0)\<lparr>money := 200\<rparr>)])))"
    by blast
  have e: "\<exists>fields. fst (leaderboard 1700000000 42 ''money'' (\<lambda>uid. True) (map_of [])
        [(''1'', (new_user 0)\<lparr>money := 50\<rparr>), (''2'', (new_user 0)\<lparr>money := 200\<rparr>),
         (''3'', (new_user 0)\<lparr>money := 200\<rparr>)]) = Board ''money'' fields \<and>
      length fields \<le> 10 \<and> map (fst \<circ> snd) fields = [''2'', ''3'', ''1'']"
    using q by (simp add: f v take_map [symmetric])
  show ?thesis
    by (intro conjI) (rule h v b e)+
qed

section \<open>Loading: corrupted data files\<close>





end
